theory Spec2Isabelle
  imports Complex_Main "HOL-Library.Multiset" "HOL-Library.Product_Lexorder" "HOL-Library.Sublist"
begin

section \<open>Python values shared by both files\<close>

text \<open>
  The exceptions that the two files can raise themselves, and \<open>Framework\<close> for an
  exception that comes out of a call into the deep-learning framework or out of the
  model-building function (identified by its text).
\<close>

datatype pyerror = ValueError | IndexError | UnboundLocalError string | Framework string

text \<open>
  A Python float is a finite double, one of the two infinities, or NaN. A finite double
  is denoted by the rational number it equals; \<open>-0.0\<close> and \<open>0.0\<close>, which compare equal,
  are both \<open>Finite 0\<close>.
\<close>

datatype pyfloat = Finite rat | PosInf | NegInf | NaN

text \<open>Python's \<open><\<close>, \<open>>=\<close> and \<open>==\<close> on floats: every comparison with NaN is false.\<close>

fun float_lt :: "pyfloat \<Rightarrow> pyfloat \<Rightarrow> bool" where
  "float_lt NaN _ = False"
| "float_lt _ NaN = False"
| "float_lt NegInf NegInf = False"
| "float_lt NegInf _ = True"
| "float_lt _ NegInf = False"
| "float_lt PosInf _ = False"
| "float_lt _ PosInf = True"
| "float_lt (Finite a) (Finite b) = (a < b)"

definition float_eq :: "pyfloat \<Rightarrow> pyfloat \<Rightarrow> bool" where
  "float_eq a b = (a \<noteq> NaN \<and> b \<noteq> NaN \<and> a = b)"

definition float_ge :: "pyfloat \<Rightarrow> pyfloat \<Rightarrow> bool" where
  "float_ge a b = (float_lt b a \<or> float_eq a b)"

section \<open>rank\_architectures.py\<close>

subsection \<open>Rows\<close>

text \<open>
  After the conversions of lines 23 and 27 a row \<open>temp\<close> is a Python list whose element 0
  is a float and whose other elements are ints (odd indices) or strings (even indices).
  It is modelled as the pair of \<open>temp[0]\<close> and \<open>temp[1:]\<close>.
\<close>

datatype cell = I int | S string

type_synonym row = "pyfloat \<times> cell list"

subsection \<open>Reading and splitting\<close>

text \<open>
  Iterating over a text file yields its lines, each with its terminating newline; the
  last line has none when the file does not end in one. The content is the text as the
  file object delivers it. The first argument accumulates the current line, reversed.
\<close>

fun iter_lines :: "string \<Rightarrow> string \<Rightarrow> string list" where
  "iter_lines cur [] = (if cur = [] then [] else [rev cur])"
| "iter_lines cur (c # cs) =
     (if c = CHR 0x0A then rev (c # cur) # iter_lines [] cs else iter_lines (c # cur) cs)"

text \<open>\<open>line.split(',')\<close>: the fields between the commas, at least one.\<close>

fun split_comma :: "string \<Rightarrow> string \<Rightarrow> string list" where
  "split_comma cur [] = [rev cur]"
| "split_comma cur (c # cs) =
     (if c = CHR '','' then rev cur # split_comma [] cs else split_comma (c # cur) cs)"

text \<open>
  \<open>temp[-1] = temp[-1][:-1]\<close> (line 22) drops the last character of the last field,
  whatever it is; on an empty list the index would be out of range.
\<close>

definition strip_last :: "string list \<Rightarrow> pyerror + string list" where
  "strip_last temp =
     (if temp = [] then Inl IndexError
      else Inr (temp[length temp - 1 := butlast (last temp)]))"

subsection \<open>Parsing one line\<close>

text \<open>
  The builtins \<open>float\<close> and \<open>int\<close> are parameters of the model: \<open>float_of s\<close> and
  \<open>int_of s\<close> are \<open>None\<close> where the builtin raises ValueError on the string \<open>s\<close>.

  The loop of lines 26-27 converts the fields at the odd indices 1, 3, 5, ... of \<open>temp\<close>,
  in this order; \<open>convert_ids\<close> runs it on \<open>temp[1:]\<close>, where these are the even positions.
\<close>

fun convert_ids :: "(string \<Rightarrow> int option) \<Rightarrow> string list \<Rightarrow> pyerror + cell list" where
  "convert_ids int_of [] = Inr []"
| "convert_ids int_of [a] =
     (case int_of a of None \<Rightarrow> Inl ValueError | Some n \<Rightarrow> Inr [I n])"
| "convert_ids int_of (a # b # rest) =
     (case int_of a of
        None \<Rightarrow> Inl ValueError
      | Some n \<Rightarrow>
          (case convert_ids int_of rest of
             Inl e \<Rightarrow> Inl e
           | Inr cells \<Rightarrow> Inr (I n # S b # cells)))"

definition parse_line ::
  "(string \<Rightarrow> pyfloat option) \<Rightarrow> (string \<Rightarrow> int option) \<Rightarrow> string \<Rightarrow> pyerror + row" where
  "parse_line float_of int_of line =
     (case strip_last (split_comma [] line) of
        Inl e \<Rightarrow> Inl e
      | Inr temp \<Rightarrow>
          (case float_of (hd temp) of
             None \<Rightarrow> Inl ValueError
           | Some score \<Rightarrow>
               (case convert_ids int_of (tl temp) of
                  Inl e \<Rightarrow> Inl e
                | Inr cells \<Rightarrow> Inr (score, cells))))"

text \<open>The loop of lines 20-29: the first line that fails to parse ends the script.\<close>

fun parse_lines ::
  "(string \<Rightarrow> pyfloat option) \<Rightarrow> (string \<Rightarrow> int option) \<Rightarrow> string list \<Rightarrow> pyerror + row list"
  where
  "parse_lines float_of int_of [] = Inr []"
| "parse_lines float_of int_of (l # ls) =
     (case parse_line float_of int_of l of
        Inl e \<Rightarrow> Inl e
      | Inr r \<Rightarrow>
          (case parse_lines float_of int_of ls of
             Inl e \<Rightarrow> Inl e
           | Inr rs \<Rightarrow> Inr (r # rs)))"

text \<open>Lines 31-32 apply \<open>float\<close> to a float, which returns it.\<close>

definition refloat :: "row list \<Rightarrow> row list" where
  "refloat lines = map (\<lambda>(score, cells). (score, cells)) lines"

subsection \<open>Decimal readers for concrete runs\<close>

text \<open>
  For runs on concrete files the two builtins are instantiated by readers of plain decimal
  literals. \<open>dec_int\<close> reads an optional sign and decimal digits; \<open>dec_float\<close> reads
  \<open>nan\<close>, or an optional sign, digits and an optional fraction, and returns the exact
  value. On the strings they are applied to below (literals whose value is a double, and
  words that are no number) they return what \<open>int\<close> and \<open>float\<close> return; the further
  forms that the builtins accept (surrounding blanks, exponents, underscores) do not
  occur there.
\<close>

definition digit_val :: "char \<Rightarrow> nat option" where
  "digit_val c =
     map_of [(CHR ''0'', 0), (CHR ''1'', 1), (CHR ''2'', 2), (CHR ''3'', 3), (CHR ''4'', 4),
             (CHR ''5'', 5), (CHR ''6'', 6), (CHR ''7'', 7), (CHR ''8'', 8), (CHR ''9'', 9)] c"

fun digits_val :: "nat \<Rightarrow> string \<Rightarrow> nat option" where
  "digits_val acc [] = Some acc"
| "digits_val acc (c # cs) =
     (case digit_val c of None \<Rightarrow> None | Some d \<Rightarrow> digits_val (10 * acc + d) cs)"

definition nat_lit :: "string \<Rightarrow> nat option" where
  "nat_lit s = (if s = [] then None else digits_val 0 s)"

definition dec_int :: "string \<Rightarrow> int option" where
  "dec_int s =
     (case s of
        [] \<Rightarrow> None
      | c # r \<Rightarrow>
          if c = CHR ''-'' then map_option (\<lambda>n. - int n) (nat_lit r)
          else if c = CHR ''+'' then map_option int (nat_lit r)
          else map_option int (nat_lit s))"

definition unsigned_float :: "string \<Rightarrow> rat option" where
  "unsigned_float s =
     (let whole = takeWhile (\<lambda>c. c \<noteq> CHR ''.'') s;
          rest = dropWhile (\<lambda>c. c \<noteq> CHR ''.'') s
      in case nat_lit whole of
           None \<Rightarrow> None
         | Some a \<Rightarrow>
             if rest = [] then Some (of_nat a)
             else (case nat_lit (tl rest) of
                     None \<Rightarrow> None
                   | Some b \<Rightarrow> Some (of_nat a + of_nat b / 10 ^ length (tl rest))))"

definition dec_float :: "string \<Rightarrow> pyfloat option" where
  "dec_float s =
     (if s = ''nan'' then Some NaN
      else (case s of
              [] \<Rightarrow> None
            | c # r \<Rightarrow>
                if c = CHR ''-'' then map_option (\<lambda>q. Finite (- q)) (unsigned_float r)
                else if c = CHR ''+'' then map_option Finite (unsigned_float r)
                else map_option Finite (unsigned_float s)))"

subsection \<open>The builtin sort\<close>

text \<open>
  \<open>sorted(lines, key=..., reverse=True)\<close> is CPython's \<open>list.sort\<close> on a copy: the keys are
  compared with \<open><\<close> only; with \<open>reverse=True\<close> the list is reversed, sorted upwards
  and reversed again. For a list of fewer than 64 elements the upward sort is
  \<open>count_run\<close> (the longest initial run that is non-descending, or strictly descending
  and then reversed) followed by \<open>binarysort\<close> (binary insertion of the remaining
  elements). Longer lists are cut into several such runs that are merged; where \<open><\<close>
  is a total preorder on the keys, which for floats means no NaN, the merged result is
  the same stable sorted list. The model runs the short-list algorithm at every length.
\<close>

fun count_asc :: "('a \<Rightarrow> 'a \<Rightarrow> bool) \<Rightarrow> 'a \<Rightarrow> 'a list \<Rightarrow> nat" where
  "count_asc lt prev [] = 0"
| "count_asc lt prev (x # xs) = (if lt x prev then 0 else Suc (count_asc lt x xs))"

fun count_desc :: "('a \<Rightarrow> 'a \<Rightarrow> bool) \<Rightarrow> 'a \<Rightarrow> 'a list \<Rightarrow> nat" where
  "count_desc lt prev [] = 0"
| "count_desc lt prev (x # xs) = (if lt x prev then Suc (count_desc lt x xs) else 0)"

text \<open>The length of the initial run, and whether it is descending.\<close>

fun count_run :: "('a \<Rightarrow> 'a \<Rightarrow> bool) \<Rightarrow> 'a list \<Rightarrow> nat \<times> bool" where
  "count_run lt [] = (0, False)"
| "count_run lt [x] = (1, False)"
| "count_run lt (x # y # ys) =
     (if lt y x then (2 + count_desc lt y ys, True) else (2 + count_asc lt y ys, False))"

text \<open>
  The binary search of \<open>binarysort\<close>: the position in \<open>xs[l:r]\<close> where \<open>pivot\<close> belongs.
\<close>

function bisect :: "('a \<Rightarrow> 'a \<Rightarrow> bool) \<Rightarrow> 'a \<Rightarrow> 'a list \<Rightarrow> nat \<Rightarrow> nat \<Rightarrow> nat" where
  "bisect lt pivot xs l r =
     (if l < r
      then (let p = l + (r - l) div 2
            in if lt pivot (xs ! p) then bisect lt pivot xs l p
               else bisect lt pivot xs (p + 1) r)
      else l)"
  by pat_completeness auto
termination
  by (relation "measure (\<lambda>(lt, pivot, xs, l, r). r - l)") auto

declare bisect.simps [simp del]

fun binarysort :: "('a \<Rightarrow> 'a \<Rightarrow> bool) \<Rightarrow> 'a list \<Rightarrow> 'a list \<Rightarrow> 'a list" where
  "binarysort lt done [] = done"
| "binarysort lt done (pivot # rest) =
     (let l = bisect lt pivot done 0 (length done)
      in binarysort lt (take l done @ pivot # drop l done) rest)"

definition listsort :: "('a \<Rightarrow> 'a \<Rightarrow> bool) \<Rightarrow> 'a list \<Rightarrow> 'a list" where
  "listsort lt xs =
     (if length xs < 2 then xs
      else (case count_run lt xs of
              (n, descending) \<Rightarrow>
                binarysort lt (if descending then rev (take n xs) else take n xs)
                  (drop n xs)))"

definition sorted_reverse :: "('a \<Rightarrow> 'a \<Rightarrow> bool) \<Rightarrow> 'a list \<Rightarrow> 'a list" where
  "sorted_reverse lt xs = rev (listsort lt (rev xs))"

text \<open>The key of line 34 is \<open>x[0]\<close>, so two rows are compared by their scores.\<close>

definition row_lt :: "row \<Rightarrow> row \<Rightarrow> bool" where
  "row_lt a b = float_lt (fst a) (fst b)"

subsection \<open>The script\<close>

text \<open>
  What the script prints: the message of line 15, or one line per row (line 37: the
  score, then the list of the other fields).
\<close>

datatype out = Message string | RowOut pyfloat "cell list"

text \<open>
  How a run ends: at the end of the file (\<open>Finished\<close>), in the call \<open>exit()\<close> of line 16,
  which ends the interpreter with status 0 (\<open>Exited\<close>), or in an uncaught exception.
\<close>

datatype ending = Finished | Exited | Uncaught pyerror

record run =
  printed :: "out list"
  opened :: "string list"
  ending :: ending

definition print_row :: "row \<Rightarrow> out" where
  "print_row r = RowOut (fst r) (snd r)"

text \<open>
  The file system maps the path of a readable text file to its content; \<open>f_arg\<close> is the
  value of the option \<open>-f\<close>, \<open>None\<close> when it is not given.
\<close>

definition rank_architectures ::
  "(string \<Rightarrow> pyfloat option) \<Rightarrow> (string \<Rightarrow> int option) \<Rightarrow> (string \<rightharpoonup> string) \<Rightarrow>
     string option \<Rightarrow> run" where
  "rank_architectures float_of int_of fs f_arg =
     (let file = (case f_arg of Some p \<Rightarrow> p | None \<Rightarrow> ''train_history.csv'')
      in case fs file of
           None \<Rightarrow>
             \<lparr>printed = [Message ''Please run `train.py` script to generate architectures first !''],
              opened = [], ending = Exited\<rparr>
         | Some content \<Rightarrow>
             (case parse_lines float_of int_of (iter_lines [] content) of
                Inl e \<Rightarrow> \<lparr>printed = [], opened = [file], ending = Uncaught e\<rparr>
              | Inr lines \<Rightarrow>
                  \<lparr>printed = map print_row (sorted_reverse row_lt (refloat lines)),
                   opened = [file], ending = Finished\<rparr>))"

subsection \<open>Row formats\<close>

text \<open>
  The row format as the specification words it, on the fields after the score: pairs of an
  action name and an integer value, so the integer values are at the indices 2, 4, 6, ...
  of the row.
\<close>

fun spec_pairs :: "(string \<Rightarrow> int option) \<Rightarrow> string list \<Rightarrow> bool" where
  "spec_pairs int_of [] = True"
| "spec_pairs int_of [name] = False"
| "spec_pairs int_of (name # v # rest) = (int_of v \<noteq> None \<and> spec_pairs int_of rest)"

text \<open>
  The row format that lines 26-27 expect, on the fields after the score: the fields at
  the indices 1, 3, 5, ... of the row are integers (the comment of line 25 calls them
  input ids). \<open>converted\<close> is the list that the loop leaves behind on such fields.
\<close>

fun ids_numeric :: "(string \<Rightarrow> int option) \<Rightarrow> string list \<Rightarrow> bool" where
  "ids_numeric int_of [] = True"
| "ids_numeric int_of [a] = (int_of a \<noteq> None)"
| "ids_numeric int_of (a # b # rest) = (int_of a \<noteq> None \<and> ids_numeric int_of rest)"

fun converted :: "(string \<Rightarrow> int option) \<Rightarrow> string list \<Rightarrow> cell list" where
  "converted int_of [] = []"
| "converted int_of [a] = [I (the (int_of a))]"
| "converted int_of (a # b # rest) = I (the (int_of a)) # S b # converted int_of rest"

text \<open>The rows that a run printed, in the order of printing.\<close>

fun printed_rows :: "out list \<Rightarrow> row list" where
  "printed_rows [] = []"
| "printed_rows (Message m # os) = printed_rows os"
| "printed_rows (RowOut score cells # os) = (score, cells) # printed_rows os"

subsection \<open>Orders and the properties of the output\<close>

text \<open>
  \<open>key_of lt k A\<close>: on the elements of \<open>A\<close> the comparison \<open>lt\<close> is the strict order of
  the keys \<open>k\<close>, taken from a linear order.
\<close>

definition key_of :: "('a \<Rightarrow> 'a \<Rightarrow> bool) \<Rightarrow> ('a \<Rightarrow> 'k::linorder) \<Rightarrow> 'a set \<Rightarrow> bool" where
  "key_of lt k A = (\<forall>a\<in>A. \<forall>b\<in>A. lt a b = (k a < k b))"

text \<open>
  The floats other than NaN in their order: the negative infinity, the finite values,
  the positive infinity.
\<close>

fun fkey :: "pyfloat \<Rightarrow> nat \<times> rat" where
  "fkey NegInf = (0, 0)"
| "fkey (Finite q) = (1, q)"
| "fkey PosInf = (2, 0)"
| "fkey NaN = (3, 0)"

text \<open>
  A list of scores is non-increasing when each score is \<open>>=\<close> every later one. An
  output keeps the input order when, for each score of the input, the rows with a score
  equal (\<open>==\<close>) to it come in the output in the order that they have in the input.
\<close>

definition nonincreasing :: "pyfloat list \<Rightarrow> bool" where
  "nonincreasing scores = sorted_wrt float_ge scores"

definition keeps_input_order :: "row list \<Rightarrow> row list \<Rightarrow> bool" where
  "keeps_input_order input output =
     (\<forall>r\<in>set input.
        filter (\<lambda>x. float_eq (fst x) (fst r)) output = filter (\<lambda>x. float_eq (fst x) (fst r)) input)"

section \<open>manager.py\<close>

subsection \<open>The manager and the framework\<close>

text \<open>
  The fields that \<open>__init__\<close> sets (lines 31-35), and its defaults (line 13). The dataset
  is a tuple, modelled as the list of its components.
\<close>

record 'd NetworkManager =
  dataset :: "'d list"
  epochs :: int
  batchsize :: int
  use_generator :: bool
  monitor :: string

definition NetworkManager_init ::
  "'d list \<Rightarrow> int option \<Rightarrow> int option \<Rightarrow> bool option \<Rightarrow> string option \<Rightarrow> 'd NetworkManager" where
  "NetworkManager_init ds ep bs ug mon =
     \<lparr>dataset = ds,
      epochs = (case ep of None \<Rightarrow> 5 | Some n \<Rightarrow> n),
      batchsize = (case bs of None \<Rightarrow> 128 | Some n \<Rightarrow> n),
      use_generator = (case ug of None \<Rightarrow> False | Some b \<Rightarrow> b),
      monitor = (case mon of None \<Rightarrow> ''val_acc'' | Some m \<Rightarrow> m)\<rparr>"

text \<open>
  The deep-learning framework is a parameter of the model. A call into it reads and changes
  the state \<open>'w\<close> of everything outside \<open>get_rewards\<close>, and either raises or returns; graphs,
  sessions, models, optimizers and callbacks are objects \<open>'o\<close>, the components of the
  dataset are \<open>'d\<close>, the numbers that \<open>evaluate\<close> returns are \<open>'r\<close>. The arguments that
  the source fixes and that the properties below do not read (the learning rate,
  \<open>verbose\<close>, the flags of the checkpoint, the worker count) are left out of the
  signatures; the loss and the metrics of \<open>compile\<close> are kept.

  A session as a context manager follows the framework's interface: \<open>__enter__\<close> gives the
  object that \<open>as\<close> binds, \<open>__exit__\<close> tears the session down and returns None, and both
  complete.
\<close>

type_synonym ('w, 'x) op = "'w \<Rightarrow> (pyerror + 'x) \<times> 'w"

record ('w, 'o, 'd, 'r) framework =
  tf_Graph :: "('w, 'o) op"
  tf_Session :: "'o \<Rightarrow> ('w, 'o) op"
  session_enter :: "'o \<Rightarrow> 'w \<Rightarrow> 'o \<times> 'w"
  session_exit :: "'o \<Rightarrow> pyerror option \<Rightarrow> 'w \<Rightarrow> 'w"
  session_close :: "'o \<Rightarrow> ('w, unit) op"
  K_set_session :: "'o \<Rightarrow> ('w, unit) op"
  Adam :: "('w, 'o) op"
  ModelCheckpoint :: "string \<Rightarrow> string \<Rightarrow> ('w, 'o) op"
  model_compile :: "'o \<Rightarrow> 'o \<Rightarrow> string \<Rightarrow> string list \<Rightarrow> ('w, unit) op"
  model_fit :: "'o \<Rightarrow> 'd \<Rightarrow> 'd \<Rightarrow> int \<Rightarrow> int \<Rightarrow> 'd \<times> 'd \<Rightarrow> 'o list \<Rightarrow> ('w, unit) op"
  model_fit_generator :: "'o \<Rightarrow> 'd \<Rightarrow> 'd \<Rightarrow> int \<Rightarrow> 'o list \<Rightarrow> ('w, unit) op"
  model_load_weights :: "'o \<Rightarrow> string \<Rightarrow> ('w, unit) op"
  model_evaluate :: "'o \<Rightarrow> 'd \<Rightarrow> 'd \<Rightarrow> int \<Rightarrow> ('w, 'r list) op"

subsection \<open>Traces\<close>

text \<open>
  The calls that \<open>get_rewards\<close> makes, with the arguments that vary. \<open>Checkpoint p m\<close> is
  \<open>ModelCheckpoint(p, monitor=m, verbose=1, save_best_only=True, save_weights_only=True)\<close>;
  \<open>Exit s e\<close> is the call of \<open>__exit__\<close> on the session \<open>s\<close>, with the exception that left
  the body of the \<open>with\<close> statement, if any. A trace lists the calls of one run in their
  order, each with what came out of it.
\<close>

datatype ('o, 'a, 'd, 'r) event =
    Graph_call
  | Session_call 'o
  | Enter 'o
  | Set_session 'o
  | Model_fn 'a
  | Adam_call
  | Compile 'o 'o string "string list"
  | Checkpoint string string
  | Fit 'o 'd 'd int int "'d \<times> 'd" "'o list"
  | Fit_generator 'o 'd 'd int "'o list"
  | Load_weights 'o string
  | Evaluate 'o 'd 'd int
  | Print_blank
  | Print_accuracy 'r
  | Exit 'o "pyerror option"
  | Close 'o

datatype ('o, 'r) outcome = Raised pyerror | Object 'o | Scalars "'r list" | Nothing

type_synonym ('o, 'a, 'd, 'r) trace = "(('o, 'a, 'd, 'r) event \<times> ('o, 'r) outcome) list"

text \<open>
  A computation takes the outer state and gives a result or an exception, the new state
  and the trace of its calls. \<open>bind\<close> is sequencing: an exception ends the sequence.
\<close>

type_synonym ('w, 'o, 'a, 'd, 'r, 'x) comp =
  "'w \<Rightarrow> (pyerror + 'x) \<times> 'w \<times> ('o, 'a, 'd, 'r) trace"

definition bind ::
  "('w, 'o, 'a, 'd, 'r, 'x) comp \<Rightarrow> ('x \<Rightarrow> ('w, 'o, 'a, 'd, 'r, 'y) comp) \<Rightarrow>
     ('w, 'o, 'a, 'd, 'r, 'y) comp" where
  "bind m f w =
     (case m w of
        (Inl e, w1, t1) \<Rightarrow> (Inl e, w1, t1)
      | (Inr x, w1, t1) \<Rightarrow> (case f x w1 of (r, w2, t2) \<Rightarrow> (r, w2, t1 @ t2)))"

definition return :: "'x \<Rightarrow> ('w, 'o, 'a, 'd, 'r, 'x) comp" where
  "return x w = (Inr x, w, [])"

definition raise :: "pyerror \<Rightarrow> ('w, 'o, 'a, 'd, 'r, 'x) comp" where
  "raise e w = (Inl e, w, [])"

definition call ::
  "('o, 'a, 'd, 'r) event \<Rightarrow> ('x \<Rightarrow> ('o, 'r) outcome) \<Rightarrow> ('w, 'x) op \<Rightarrow>
     ('w, 'o, 'a, 'd, 'r, 'x) comp" where
  "call ev shown f w =
     (case f w of
        (Inl e, w') \<Rightarrow> (Inl e, w', [(ev, Raised e)])
      | (Inr x, w') \<Rightarrow> (Inr x, w', [(ev, shown x)]))"

definition print :: "('o, 'a, 'd, 'r) event \<Rightarrow> ('w, 'o, 'a, 'd, 'r, unit) comp" where
  "print ev w = (Inr (), w, [(ev, Nothing)])"

subsection \<open>get\_rewards\<close>

text \<open>
  Lines 71-95. The static branch unpacks four arrays and binds \<open>X_val\<close> and \<open>y_val\<close>; the
  generator branch unpacks two generators and binds neither. The result is the binding of
  \<open>(X_val, y_val)\<close> that the rest of the function sees. Unpacking a tuple of another
  length raises ValueError. The checkpoint callback is built while the arguments of
  \<open>fit\<close> are evaluated; the generator branch monitors \<open>val_acc\<close> whatever \<open>self.monitor\<close> is.
\<close>

definition weights_path :: string where
  "weights_path = ''weights/temp_network.h5''"

definition train ::
  "('w, 'o, 'd, 'r) framework \<Rightarrow> 'd NetworkManager \<Rightarrow> 'o \<Rightarrow>
     ('w, 'o, 'a, 'd, 'r, ('d \<times> 'd) option) comp" where
  "train fw self model =
     (if \<not> use_generator self then
        (case dataset self of
           [X_train, y_train, X_val, y_val] \<Rightarrow>
             bind (call (Checkpoint weights_path (monitor self)) Object
                     (ModelCheckpoint fw weights_path (monitor self))) (\<lambda>cb.
             bind (call (Fit model X_train y_train (batchsize self) (epochs self) (X_val, y_val) [cb])
                     (\<lambda>_. Nothing)
                     (model_fit fw model X_train y_train (batchsize self) (epochs self)
                        (X_val, y_val) [cb])) (\<lambda>_.
             return (Some (X_val, y_val))))
         | _ \<Rightarrow> raise ValueError)
      else
        (case dataset self of
           [training_generator, validation_generator] \<Rightarrow>
             bind (call (Checkpoint weights_path ''val_acc'') Object
                     (ModelCheckpoint fw weights_path ''val_acc'')) (\<lambda>cb.
             bind (call (Fit_generator model training_generator validation_generator
                           (epochs self) [cb])
                     (\<lambda>_. Nothing)
                     (model_fit_generator fw model training_generator validation_generator
                        (epochs self) [cb])) (\<lambda>_.
             return None))
         | _ \<Rightarrow> raise ValueError))"

text \<open>
  Lines 64-106, the body of the \<open>with\<close> statement. Line 100 reads the locals \<open>X_val\<close>
  and \<open>y_val\<close> before it calls \<open>evaluate\<close>; where they are unbound this raises
  UnboundLocalError, a subclass of NameError. \<open>loss, acc = ...\<close> unpacks a result of
  exactly two numbers.
\<close>

definition with_body ::
  "('w, 'o, 'd, 'r) framework \<Rightarrow> 'd NetworkManager \<Rightarrow> ('a \<Rightarrow> ('w, 'o) op) \<Rightarrow> 'a \<Rightarrow> 'o \<Rightarrow>
     ('w, 'o, 'a, 'd, 'r, 'r) comp" where
  "with_body fw self model_fn actions network_sess =
     bind (call (Set_session network_sess) (\<lambda>_. Nothing) (K_set_session fw network_sess)) (\<lambda>_.
     bind (call (Model_fn actions) Object (model_fn actions)) (\<lambda>model.
     bind (call Adam_call Object (Adam fw)) (\<lambda>optimizer.
     bind (call (Compile model optimizer ''categorical_crossentropy'' [''accuracy''])
             (\<lambda>_. Nothing)
             (model_compile fw model optimizer ''categorical_crossentropy'' [''accuracy''])) (\<lambda>_.
     bind (train fw self model) (\<lambda>val.
     bind (call (Load_weights model weights_path) (\<lambda>_. Nothing)
             (model_load_weights fw model weights_path)) (\<lambda>_.
     bind (case val of
             None \<Rightarrow> raise (UnboundLocalError ''X_val'')
           | Some (X_val, y_val) \<Rightarrow>
               call (Evaluate model X_val y_val (batchsize self)) Scalars
                 (model_evaluate fw model X_val y_val (batchsize self))) (\<lambda>res.
     (case res of
        [loss, acc] \<Rightarrow>
          bind (print Print_blank) (\<lambda>_.
          bind (print (Print_accuracy acc)) (\<lambda>_.
          return acc))
      | _ \<Rightarrow> raise ValueError))))))))"

text \<open>
  The \<open>with\<close> statement of line 63 on a session: enter, run the body, and call
  \<open>__exit__\<close> with the exception of the body, if there is one, which then goes on to the
  caller.
\<close>

definition raised :: "pyerror + 'x \<Rightarrow> pyerror option" where
  "raised r = (case r of Inl e \<Rightarrow> Some e | Inr _ \<Rightarrow> None)"

definition with_session ::
  "('w, 'o, 'd, 'r) framework \<Rightarrow> 'o \<Rightarrow> ('o \<Rightarrow> ('w, 'o, 'a, 'd, 'r, 'x) comp) \<Rightarrow>
     ('w, 'o, 'a, 'd, 'r, 'x) comp" where
  "with_session fw sess body w0 =
     (case session_enter fw sess w0 of
        (network_sess, w1) \<Rightarrow>
          (case body network_sess w1 of
             (r, w2, t) \<Rightarrow>
               (r, session_exit fw sess (raised r) w2,
                (Enter sess, Object network_sess) # t @ [(Exit sess (raised r), Nothing)])))"

text \<open>
  Lines 63-111: the graph, the session on it, the body inside the \<open>with\<close> statement, then
  \<open>network_sess.close()\<close> and \<open>return reward\<close>.
\<close>

definition get_rewards ::
  "('w, 'o, 'd, 'r) framework \<Rightarrow> 'd NetworkManager \<Rightarrow> ('a \<Rightarrow> ('w, 'o) op) \<Rightarrow> 'a \<Rightarrow>
     ('w, 'o, 'a, 'd, 'r, 'r) comp" where
  "get_rewards fw self model_fn actions =
     bind (call Graph_call Object (tf_Graph fw)) (\<lambda>graph.
     bind (call (Session_call graph) Object (tf_Session fw graph)) (\<lambda>sess.
     bind (with_session fw sess (\<lambda>network_sess.
             bind (with_body fw self model_fn actions network_sess) (\<lambda>reward.
             return (network_sess, reward)))) (\<lambda>(network_sess, reward).
     bind (call (Close network_sess) (\<lambda>_. Nothing) (session_close fw network_sess)) (\<lambda>_.
     return reward))))"

subsection \<open>Steps and session calls\<close>

text \<open>
  The five steps of the training loop, and the step that a call belongs to.
\<close>

datatype step = Build | Compile_model | Train | Reload | Evaluate_model

definition step_of :: "('o, 'a, 'd, 'r) event \<Rightarrow> step option" where
  "step_of ev =
     (case ev of
        Model_fn _ \<Rightarrow> Some Build
      | Compile _ _ _ _ \<Rightarrow> Some Compile_model
      | Fit _ _ _ _ _ _ _ \<Rightarrow> Some Train
      | Fit_generator _ _ _ _ _ \<Rightarrow> Some Train
      | Load_weights _ _ \<Rightarrow> Some Reload
      | Evaluate _ _ _ _ \<Rightarrow> Some Evaluate_model
      | _ \<Rightarrow> None)"

definition steps :: "('o, 'a, 'd, 'r) trace \<Rightarrow> step list" where
  "steps t = List.map_filter (\<lambda>(ev, out). step_of ev) t"

definition all_steps :: "step list" where
  "all_steps = [Build, Compile_model, Train, Reload, Evaluate_model]"

text \<open>
  The calls that create, enter, leave and close a graph or a session.
\<close>

definition is_session_event :: "('o, 'a, 'd, 'r) event \<Rightarrow> bool" where
  "is_session_event ev =
     (case ev of
        Graph_call \<Rightarrow> True
      | Session_call _ \<Rightarrow> True
      | Enter _ \<Rightarrow> True
      | Exit _ _ \<Rightarrow> True
      | Close _ \<Rightarrow> True
      | _ \<Rightarrow> False)"

subsection \<open>A framework for concrete runs\<close>

text \<open>
  A framework in which every call succeeds. Its state is the number of objects made so
  far, a new object being its number, and the list of the sessions that are open: a
  session is open from its creation until \<open>__exit__\<close> or \<open>close\<close>. \<open>broken_compile\<close> and
  \<open>broken_session\<close> are the same framework with a \<open>compile\<close>, or a session constructor,
  that raises. The two managers are built as \<open>__init__\<close> builds them, one on four arrays
  and one with \<open>use_generator=True\<close> on two generators.
\<close>

definition new_object :: "(int \<times> int list, int) op" where
  "new_object w = (Inr (fst w), (fst w + 1, snd w))"

definition ok_framework :: "(int \<times> int list, int, string, rat) framework" where
  "ok_framework =
     \<lparr>tf_Graph = new_object,
      tf_Session = (\<lambda>g w. (Inr (fst w), (fst w + 1, fst w # snd w))),
      session_enter = (\<lambda>s w. (s, w)),
      session_exit = (\<lambda>s e w. (fst w, removeAll s (snd w))),
      session_close = (\<lambda>s w. (Inr (), (fst w, removeAll s (snd w)))),
      K_set_session = (\<lambda>s w. (Inr (), w)),
      Adam = new_object,
      ModelCheckpoint = (\<lambda>p m. new_object),
      model_compile = (\<lambda>m opt loss metrics w. (Inr (), w)),
      model_fit = (\<lambda>m x y b e v cbs w. (Inr (), w)),
      model_fit_generator = (\<lambda>m g v e cbs w. (Inr (), w)),
      model_load_weights = (\<lambda>m p w. (Inr (), w)),
      model_evaluate = (\<lambda>m x y b w. (Inr [1 / 4, 9 / 10], w))\<rparr>"

definition ok_model_fn :: "int list \<Rightarrow> (int \<times> int list, int) op" where
  "ok_model_fn actions = new_object"

definition broken_compile :: "(int \<times> int list, int, string, rat) framework" where
  "broken_compile =
     ok_framework\<lparr>model_compile :=
       (\<lambda>m opt loss metrics w. (Inl (Framework ''compile failed''), w))\<rparr>"

definition broken_session :: "(int \<times> int list, int, string, rat) framework" where
  "broken_session =
     ok_framework\<lparr>tf_Session := (\<lambda>g w. (Inl (Framework ''no session''), w))\<rparr>"

definition static_manager :: "string NetworkManager" where
  "static_manager = NetworkManager_init [''X_train'', ''y_train'', ''X_val'', ''y_val''] None None None None"

definition generator_manager :: "string NetworkManager" where
  "generator_manager =
     NetworkManager_init [''training_generator'', ''validation_generator''] None None (Some True) None"

subsection \<open>Runs that return\<close>

text \<open>
  \<open>static_body\<close> describes a body of the \<open>with\<close> statement that returns \<open>reward\<close>: the
  manager holds four arrays, and from the state \<open>wa\<close> each call of lines 64-100 returns in
  the state that the call before it left: the model is the one that
  \<open>model_fn(actions)\<close> built, it is compiled with the accuracy metric, fitted on the first
  two arrays with the last two as validation data and the checkpoint callback, reloaded
  from the checkpoint file, and evaluated on the last two arrays, \<open>X_val\<close> and \<open>y_val\<close>; this
  call returns a loss and \<open>reward\<close>. \<open>returned_run\<close> puts a graph, a session on it and
  \<open>__enter__\<close> before such a body and \<open>__exit__\<close> and \<open>close\<close> after it.
\<close>

definition static_body ::
  "('w, 'o, 'd, 'r) framework \<Rightarrow> 'd NetworkManager \<Rightarrow> ('a \<Rightarrow> ('w, 'o) op) \<Rightarrow> 'a \<Rightarrow> 'o \<Rightarrow>
     'w \<Rightarrow> 'r \<Rightarrow> 'w \<Rightarrow> ('o, 'a, 'd, 'r) trace \<Rightarrow> bool" where
  "static_body fw self model_fn actions ns wa reward wb tb =
     (\<not> use_generator self \<and>
      (\<exists>X_train y_train X_val y_val model optimizer cb loss w1 w2 w3 w4 w5 w6 w7.
         dataset self = [X_train, y_train, X_val, y_val]
         \<and> K_set_session fw ns wa = (Inr (), w1)
         \<and> model_fn actions w1 = (Inr model, w2)
         \<and> Adam fw w2 = (Inr optimizer, w3)
         \<and> model_compile fw model optimizer ''categorical_crossentropy'' [''accuracy''] w3
             = (Inr (), w4)
         \<and> ModelCheckpoint fw weights_path (monitor self) w4 = (Inr cb, w5)
         \<and> model_fit fw model X_train y_train (batchsize self) (epochs self) (X_val, y_val) [cb] w5
             = (Inr (), w6)
         \<and> model_load_weights fw model weights_path w6 = (Inr (), w7)
         \<and> model_evaluate fw model X_val y_val (batchsize self) w7 = (Inr [loss, reward], wb)
         \<and> tb = [(Set_session ns, Nothing), (Model_fn actions, Object model),
                  (Adam_call, Object optimizer),
                  (Compile model optimizer ''categorical_crossentropy'' [''accuracy''], Nothing),
                  (Checkpoint weights_path (monitor self), Object cb),
                  (Fit model X_train y_train (batchsize self) (epochs self) (X_val, y_val) [cb],
                   Nothing),
                  (Load_weights model weights_path, Nothing),
                  (Evaluate model X_val y_val (batchsize self), Scalars [loss, reward]),
                  (Print_blank, Nothing), (Print_accuracy reward, Nothing)]))"

definition returned_run ::
  "('w, 'o, 'd, 'r) framework \<Rightarrow> 'd NetworkManager \<Rightarrow> ('a \<Rightarrow> ('w, 'o) op) \<Rightarrow> 'a \<Rightarrow>
     'w \<Rightarrow> 'r \<Rightarrow> 'w \<Rightarrow> ('o, 'a, 'd, 'r) trace \<Rightarrow> bool" where
  "returned_run fw self model_fn actions w reward w' t =
     (\<exists>g w1 sess w2 ns wa wb tb.
        tf_Graph fw w = (Inr g, w1)
        \<and> tf_Session fw g w1 = (Inr sess, w2)
        \<and> session_enter fw sess w2 = (ns, wa)
        \<and> static_body fw self model_fn actions ns wa reward wb tb
        \<and> session_close fw ns (session_exit fw sess None wb) = (Inr (), w')
        \<and> t = [(Graph_call, Object g), (Session_call g, Object sess), (Enter sess, Object ns)]
                @ tb @ [(Exit sess None, Nothing), (Close ns, Nothing)])"

section \<open>Properties of rank\_architectures.py\<close>

subsection \<open>Parsing\<close>

lemma split_comma_nonempty: "split_comma cur s \<noteq> []"
  by (induction s arbitrary: cur) auto

lemma strip_last_split: "\<exists>temp. strip_last (split_comma [] line) = Inr temp \<and> temp \<noteq> []"
  by (simp add: strip_last_def split_comma_nonempty)

lemma refloat_id: "refloat lines = lines"
  by (simp add: refloat_def)

lemma convert_ids_numeric:
  "ids_numeric int_of fs \<Longrightarrow> convert_ids int_of fs = Inr (converted int_of fs)"
  by (induction int_of fs rule: convert_ids.induct) auto

lemma convert_ids_iff:
  "(\<exists>cells. convert_ids int_of fs = Inr cells) = ids_numeric int_of fs"
  by (induction int_of fs rule: convert_ids.induct) (auto split: option.splits sum.splits)

lemma converted_nth:
  "j < length fs \<Longrightarrow>
   converted int_of fs ! j = (if even j then I (the (int_of (fs ! j))) else S (fs ! j))"
proof (induction int_of fs arbitrary: j rule: converted.induct)
  case (3 int_of a b rest)
  show ?case
  proof (cases j)
    case 0 then show ?thesis by simp
  next
    case (Suc k)
    show ?thesis
    proof (cases k)
      case 0 with Suc show ?thesis by simp
    next
      case (Suc m)
      with \<open>j = Suc k\<close> 3 show ?thesis by simp
    qed
  qed
qed simp_all

lemma length_converted: "length (converted int_of fs) = length fs"
  by (induction int_of fs rule: converted.induct) simp_all

lemmas dec_defs = dec_float_def dec_int_def unsigned_float_def nat_lit_def digit_val_def

text \<open>
  C4, as amended: a line parses without error when its first field is accepted by \<open>float\<close>
  and its fields at the indices 1, 3, 5, ... are accepted by \<open>int\<close>, the last character
  of the line having been removed from the last field. Field 0 becomes the float, the
  fields at the odd indices become ints, and the fields at the indices 2, 4, 6, ... stay
  strings (\<open>converted_nth\<close> reads the result index by index).
\<close>

theorem parse_line_ok:
  assumes "strip_last (split_comma [] line) = Inr temp"
    and "float_of (hd temp) = Some score"
    and "ids_numeric int_of (tl temp)"
  shows "parse_line float_of int_of line = Inr (score, converted int_of (tl temp))"
  using assms by (simp add: parse_line_def convert_ids_numeric)

theorem parse_line_ok_witness:
  "parse_line dec_float dec_int ''0.5,3,conv\<newline>'' = Inr (Finite (1 / 2), [I 3, S ''conv''])"
proof -
  have t: "strip_last (split_comma [] ''0.5,3,conv\<newline>'') = Inr [''0.5'', ''3'', ''conv'']"
    by (simp add: strip_last_def)
  have f: "dec_float (hd [''0.5'', ''3'', ''conv'']) = Some (Finite (1 / 2))"
    by (simp add: dec_defs)
  have n: "ids_numeric dec_int (tl [''0.5'', ''3'', ''conv''])"
    by (simp add: dec_defs)
  show ?thesis
    using parse_line_ok [where float_of = dec_float and int_of = dec_int, OF t f n] by (simp add: dec_defs)
qed

text \<open>
  C4 as stated fails: the line \<open>0.5,conv,3\<close> has a numeric score and then an action name
  followed by an integer value, and the script raises ValueError on it, since line 27
  applies \<open>int\<close> to the field at index 1, the name.
\<close>

theorem documented_row_rejected:
  "strip_last (split_comma [] ''0.5,conv,3\<newline>'') = Inr [''0.5'', ''conv'', ''3'']
   \<and> dec_float ''0.5'' = Some (Finite (1 / 2))
   \<and> spec_pairs dec_int [''conv'', ''3'']
   \<and> parse_line dec_float dec_int ''0.5,conv,3\<newline>'' = Inl ValueError"
  by (simp add: parse_line_def strip_last_def dec_defs)

subsection \<open>The sort permutes its input\<close>

lemma mset_take_drop: "mset (take n xs) + mset (drop n xs) = mset xs"
  by (metis append_take_drop_id mset_append)

lemma mset_insert_at: "mset (take l xs @ x # drop l xs) = add_mset x (mset xs)"
  by (simp add: mset_take_drop)

lemma mset_binarysort: "mset (binarysort lt done rest) = mset done + mset rest"
  by (induction rest arbitrary: "done") (simp_all add: Let_def mset_take_drop)

lemma mset_listsort: "mset (listsort lt xs) = mset xs"
proof (cases "length xs < 2")
  case True
  then show ?thesis by (simp add: listsort_def)
next
  case False
  obtain n d where nd: "count_run lt xs = (n, d)" by (cases "count_run lt xs")
  with False show ?thesis
    by (simp add: listsort_def mset_binarysort mset_take_drop)
qed

lemma mset_sorted_reverse: "mset (sorted_reverse lt xs) = mset xs"
  by (simp add: sorted_reverse_def mset_listsort)

subsection \<open>The printed rows\<close>

lemma printed_rows_print_row: "printed_rows (map print_row rs) = rs"
  by (induction rs) (simp_all add: print_row_def)

text \<open>
  C8: when the file exists and every line of it parses, the script runs to its end, all
  that it prints are rows (each as its score and the list of its other fields), and the
  multiset of the printed rows is the multiset of the rows read.
\<close>

theorem printed_rows_are_input_rows:
  assumes "fs (case f_arg of Some p \<Rightarrow> p | None \<Rightarrow> ''train_history.csv'') = Some content"
    and "parse_lines float_of int_of (iter_lines [] content) = Inr rows"
  shows "ending (rank_architectures float_of int_of fs f_arg) = Finished
    \<and> printed (rank_architectures float_of int_of fs f_arg) =
        map print_row (printed_rows (printed (rank_architectures float_of int_of fs f_arg)))
    \<and> mset (printed_rows (printed (rank_architectures float_of int_of fs f_arg))) = mset rows"
  using assms
  by (simp add: rank_architectures_def printed_rows_print_row mset_sorted_reverse refloat_id)

theorem printed_rows_are_input_rows_witness:
  "ending (rank_architectures dec_float dec_int
             [''h.csv'' \<mapsto> ''0.5,3,conv\<newline>0.75,1,pool\<newline>''] (Some ''h.csv'')) = Finished
   \<and> mset (printed_rows (printed (rank_architectures dec_float dec_int
             [''h.csv'' \<mapsto> ''0.5,3,conv\<newline>0.75,1,pool\<newline>''] (Some ''h.csv''))))
       = {#(Finite (1 / 2), [I 3, S ''conv'']), (Finite (3 / 4), [I 1, S ''pool''])#}"
proof -
  have f: "[''h.csv'' \<mapsto> ''0.5,3,conv\<newline>0.75,1,pool\<newline>'']
             (case Some ''h.csv'' of Some p \<Rightarrow> p | None \<Rightarrow> ''train_history.csv'')
           = Some ''0.5,3,conv\<newline>0.75,1,pool\<newline>''"
    by simp
  have p: "parse_lines dec_float dec_int (iter_lines [] ''0.5,3,conv\<newline>0.75,1,pool\<newline>'')
           = Inr [(Finite (1 / 2), [I 3, S ''conv'']), (Finite (3 / 4), [I 1, S ''pool''])]"
    by (simp add: parse_line_def strip_last_def dec_defs)
  show ?thesis
    using printed_rows_are_input_rows
      [where fs = "[''h.csv'' \<mapsto> ''0.5,3,conv\<newline>0.75,1,pool\<newline>'']"
         and f_arg = "Some ''h.csv''" and float_of = dec_float and int_of = dec_int, OF f p] by simp
qed

subsection \<open>The sort on keys without NaN\<close>

lemma key_ofD: "key_of lt k A \<Longrightarrow> a \<in> A \<Longrightarrow> b \<in> A \<Longrightarrow> lt a b = (k a < k b)"
  by (simp add: key_of_def)

lemma key_of_subset: "key_of lt k A \<Longrightarrow> B \<subseteq> A \<Longrightarrow> key_of lt k B"
  by (auto simp: key_of_def)

lemma bisect_split:
  assumes "key_of lt k (insert pivot (set xs))"
    and "sorted (map k xs)"
    and "l \<le> r" and "r \<le> length xs"
    and "\<forall>i<l. k (xs ! i) \<le> k pivot"
    and "\<forall>i. r \<le> i \<and> i < length xs \<longrightarrow> k pivot < k (xs ! i)"
  shows "bisect lt pivot xs l r \<le> length xs
    \<and> (\<forall>i<bisect lt pivot xs l r. k (xs ! i) \<le> k pivot)
    \<and> (\<forall>i. bisect lt pivot xs l r \<le> i \<and> i < length xs \<longrightarrow> k pivot < k (xs ! i))"
  using assms
proof (induction lt pivot xs l r rule: bisect.induct)
  case (1 lt pivot xs l r)
  show ?case
  proof (cases "l < r")
    case False
    with "1.prems" have "l = r" by simp
    then have "bisect lt pivot xs l r = l" by (simp add: bisect.simps)
    with "1.prems" \<open>l = r\<close> show ?thesis by simp
  next
    case True
    define p where "p = l + (r - l) div 2"
    have pl: "l \<le> p" and pr: "p < r" using True by (auto simp: p_def)
    have plen: "p < length xs" using pr "1.prems" by simp
    have mono: "\<And>i j. i \<le> j \<Longrightarrow> j < length xs \<Longrightarrow> k (xs ! i) \<le> k (xs ! j)"
      using "1.prems"(2) by (simp add: sorted_iff_nth_mono)
    have cmp: "lt pivot (xs ! p) = (k pivot < k (xs ! p))"
      using "1.prems"(1) plen by (simp add: key_of_def)
    show ?thesis
    proof (cases "lt pivot (xs ! p)")
      case lt: True
      have eq: "bisect lt pivot xs l r = bisect lt pivot xs l p"
        using True lt by (subst bisect.simps) (simp add: p_def Let_def)
      have up: "\<forall>i. p \<le> i \<and> i < length xs \<longrightarrow> k pivot < k (xs ! i)"
      proof (intro allI impI)
        fix i assume "p \<le> i \<and> i < length xs"
        then have "k (xs ! p) \<le> k (xs ! i)" using mono by simp
        with lt cmp show "k pivot < k (xs ! i)" by simp
      qed
      have "bisect lt pivot xs l p \<le> length xs
        \<and> (\<forall>i<bisect lt pivot xs l p. k (xs ! i) \<le> k pivot)
        \<and> (\<forall>i. bisect lt pivot xs l p \<le> i \<and> i < length xs \<longrightarrow> k pivot < k (xs ! i))"
        using "1.IH"(1) [OF True p_def lt "1.prems"(1) "1.prems"(2) pl _ "1.prems"(5) up] plen
        by simp
      with eq show ?thesis by simp
    next
      case nlt: False
      have eq: "bisect lt pivot xs l r = bisect lt pivot xs (p + 1) r"
        using True nlt by (subst bisect.simps) (simp add: p_def Let_def)
      have low: "\<forall>i<p + 1. k (xs ! i) \<le> k pivot"
      proof (intro allI impI)
        fix i assume "i < p + 1"
        then have "k (xs ! i) \<le> k (xs ! p)" using mono plen by simp
        moreover have "k (xs ! p) \<le> k pivot" using nlt cmp by simp
        ultimately show "k (xs ! i) \<le> k pivot" by simp
      qed
      have "bisect lt pivot xs (p + 1) r \<le> length xs
        \<and> (\<forall>i<bisect lt pivot xs (p + 1) r. k (xs ! i) \<le> k pivot)
        \<and> (\<forall>i. bisect lt pivot xs (p + 1) r \<le> i \<and> i < length xs \<longrightarrow> k pivot < k (xs ! i))"
        using "1.IH"(2) [OF True p_def nlt "1.prems"(1) "1.prems"(2) _ "1.prems"(4) low "1.prems"(6)] pr
        by simp
      with eq show ?thesis by simp
    qed
  qed
qed

lemma insert_at_sorted:
  assumes "sorted (map k xs)" and "m \<le> length xs"
    and "\<forall>i<m. k (xs ! i) \<le> k pivot"
    and "\<forall>i. m \<le> i \<and> i < length xs \<longrightarrow> k pivot < k (xs ! i)"
  shows "sorted (map k (take m xs @ pivot # drop m xs))"
proof -
  have t: "\<forall>x\<in>set (take m xs). k x \<le> k pivot"
    using assms(2,3) by (auto simp: in_set_conv_nth)
  have d: "\<forall>x\<in>set (drop m xs). k pivot < k x"
    using assms(2,4) by (auto simp: in_set_conv_nth)
  have st: "sorted (map k (take m xs))" and sd: "sorted (map k (drop m xs))"
    using assms(1) by (simp_all add: sorted_wrt_take sorted_wrt_drop sorted_map)
  show ?thesis
    using t d st sd by (fastforce simp: sorted_append)
qed

lemma insert_at_stable:
  fixes k :: "'a \<Rightarrow> 'k::linorder"
  assumes "m \<le> length xs"
    and "\<forall>i. m \<le> i \<and> i < length xs \<longrightarrow> k pivot < k (xs ! i)"
  shows "filter (\<lambda>x. k x = v) (take m xs @ pivot # drop m xs) = filter (\<lambda>x. k x = v) (xs @ [pivot])"
proof -
  have d: "\<forall>x\<in>set (drop m xs). k pivot < k x"
    using assms by (auto simp: in_set_conv_nth)
  have split: "filter (\<lambda>x. k x = v) xs
      = filter (\<lambda>x. k x = v) (take m xs) @ filter (\<lambda>x. k x = v) (drop m xs)"
    by (metis append_take_drop_id filter_append)
  show ?thesis
  proof (cases "k pivot = v")
    case True
    have "\<forall>x\<in>set (drop m xs). k x \<noteq> v"
      using d True by (metis order_less_irrefl)
    then have "filter (\<lambda>x. k x = v) (drop m xs) = []"
      by (simp add: filter_empty_conv)
    with True split show ?thesis by simp
  next
    case False
    with split show ?thesis by simp
  qed
qed

lemma set_insert_at: "set (take m xs @ x # drop m xs) = insert x (set xs)"
proof -
  have "set (take m xs) \<union> set (drop m xs) = set xs"
    by (metis append_take_drop_id set_append)
  then show ?thesis by auto
qed

lemma binarysort_sorted_stable:
  fixes k :: "'a \<Rightarrow> 'k::linorder"
  assumes "key_of lt k (set done \<union> set rest)" and "sorted (map k done)"
  shows "sorted (map k (binarysort lt done rest))
    \<and> filter (\<lambda>x. k x = v) (binarysort lt done rest) = filter (\<lambda>x. k x = v) (done @ rest)"
  using assms
proof (induction rest arbitrary: "done")
  case Nil
  then show ?case by simp
next
  case (Cons pivot rest)
  define m where "m = bisect lt pivot done 0 (length done)"
  define done' where "done' = take m done @ pivot # drop m done"
  have ko: "key_of lt k (insert pivot (set done))"
    by (rule key_of_subset [OF Cons.prems(1)]) auto
  have vac: "\<forall>i. length done \<le> i \<and> i < length done \<longrightarrow> k pivot < k (done ! i)"
    by auto
  have b: "m \<le> length done
    \<and> (\<forall>i<m. k (done ! i) \<le> k pivot)
    \<and> (\<forall>i. m \<le> i \<and> i < length done \<longrightarrow> k pivot < k (done ! i))"
    unfolding m_def
    using bisect_split [OF ko Cons.prems(2), of 0 "length done"] vac by simp
  have s': "sorted (map k done')"
    unfolding done'_def
    by (rule insert_at_sorted [OF Cons.prems(2)]) (use b in simp_all)
  have f': "filter (\<lambda>x. k x = v) done' = filter (\<lambda>x. k x = v) (done @ [pivot])"
    unfolding done'_def
    by (rule insert_at_stable) (use b in simp_all)
  have "set done' = insert pivot (set done)"
    unfolding done'_def by (rule set_insert_at)
  then have "set done' \<union> set rest = set done \<union> set (pivot # rest)"
    by auto
  then have ko': "key_of lt k (set done' \<union> set rest)"
    using Cons.prems(1) by simp
  have ih: "sorted (map k (binarysort lt done' rest))
    \<and> filter (\<lambda>x. k x = v) (binarysort lt done' rest) = filter (\<lambda>x. k x = v) (done' @ rest)"
    by (rule Cons.IH [OF ko' s'])
  have step: "binarysort lt done (pivot # rest) = binarysort lt done' rest"
    by (simp add: Let_def m_def done'_def)
  show ?case
    unfolding step using ih f' by simp
qed

lemma count_asc_sorted:
  "key_of lt k (insert prev (set xs)) \<Longrightarrow> sorted (map k (prev # take (count_asc lt prev xs) xs))"
proof (induction xs arbitrary: prev)
  case Nil
  then show ?case by simp
next
  case (Cons x xs)
  have c: "lt x prev = (k x < k prev)" using Cons.prems by (simp add: key_of_def)
  have "key_of lt k (insert x (set xs))" using Cons.prems by (auto simp: key_of_def)
  then have ih: "sorted (map k (x # take (count_asc lt x xs) xs))" by (rule Cons.IH)
  show ?case
  proof (cases "lt x prev")
    case True
    then show ?thesis by simp
  next
    case False
    with c have "k prev \<le> k x" by simp
    with ih False show ?thesis by auto
  qed
qed

lemma count_desc_strict:
  "key_of lt k (insert prev (set xs)) \<Longrightarrow>
   sorted_wrt (\<lambda>a b. k b < k a) (prev # take (count_desc lt prev xs) xs)"
proof (induction xs arbitrary: prev)
  case Nil
  then show ?case by simp
next
  case (Cons x xs)
  have c: "lt x prev = (k x < k prev)" using Cons.prems by (simp add: key_of_def)
  have "key_of lt k (insert x (set xs))" using Cons.prems by (auto simp: key_of_def)
  then have ih: "sorted_wrt (\<lambda>a b. k b < k a) (x # take (count_desc lt x xs) xs)" by (rule Cons.IH)
  show ?case
  proof (cases "lt x prev")
    case False
    then show ?thesis by simp
  next
    case True
    with c have "k x < k prev" by simp
    with ih True show ?thesis by auto
  qed
qed

lemma strict_desc_rev_sorted:
  fixes k :: "'a \<Rightarrow> 'k::linorder"
  assumes "sorted_wrt (\<lambda>a b. k b < k a) xs"
  shows "sorted (map k (rev xs))"
proof -
  from assms have "sorted_wrt (\<lambda>a b. k b \<le> k a) xs"
    by (rule sorted_wrt_mono_rel [rotated]) simp
  then show ?thesis
    by (simp add: sorted_map sorted_wrt_rev)
qed

lemma strict_desc_filter_short:
  fixes k :: "'a \<Rightarrow> 'k::linorder"
  shows "sorted_wrt (\<lambda>a b. k b < k a) xs \<Longrightarrow> length (filter (\<lambda>x. k x = v) xs) \<le> 1"
proof (induction xs)
  case Nil
  then show ?case by simp
next
  case (Cons x xs)
  show ?case
  proof (cases "k x = v")
    case True
    have "\<forall>y\<in>set xs. k y < k x"
      using Cons.prems by simp
    then have "\<forall>y\<in>set xs. k y \<noteq> v"
      using True by (metis order_less_irrefl)
    then have "filter (\<lambda>x. k x = v) xs = []"
      by (simp add: filter_empty_conv)
    with True show ?thesis by simp
  next
    case False
    with Cons show ?thesis by simp
  qed
qed

lemma short_rev: "length xs \<le> 1 \<Longrightarrow> rev xs = xs"
  by (cases xs) auto

lemma strict_desc_rev_stable:
  fixes k :: "'a \<Rightarrow> 'k::linorder"
  shows "sorted_wrt (\<lambda>a b. k b < k a) xs \<Longrightarrow> filter (\<lambda>x. k x = v) (rev xs) = filter (\<lambda>x. k x = v) xs"
  using short_rev [OF strict_desc_filter_short] by (simp add: rev_filter [symmetric])

lemma count_run_cons:
  "zs \<noteq> [] \<Longrightarrow> count_run lt (x # zs) =
     (if lt (hd zs) x then (1 + count_desc lt x zs, True) else (1 + count_asc lt x zs, False))"
  by (cases zs) simp_all

lemma listsort_sorted_stable:
  fixes k :: "'a \<Rightarrow> 'k::linorder"
  assumes ko: "key_of lt k (set xs)"
  shows "sorted (map k (listsort lt xs))
    \<and> filter (\<lambda>x. k x = v) (listsort lt xs) = filter (\<lambda>x. k x = v) xs"
proof (cases "length xs < 2")
  case True
  then have "xs = [] \<or> (\<exists>x. xs = [x])"
    by (cases xs) (auto simp: length_Suc_conv)
  with True show ?thesis by (auto simp: listsort_def)
next
  case False
  then obtain x zs where xs: "xs = x # zs" and zs: "zs \<noteq> []"
    by (cases xs) auto
  have kx: "key_of lt k (insert x (set zs))" using ko xs by simp
  show ?thesis
  proof (cases "lt (hd zs) x")
    case desc: True
    define n where "n = count_desc lt x zs"
    define run where "run = x # take n zs"
    have cr: "count_run lt xs = (1 + n, True)"
      using desc zs xs by (simp add: count_run_cons n_def)
    have strict: "sorted_wrt (\<lambda>a b. k b < k a) run"
      unfolding run_def n_def by (rule count_desc_strict [OF kx])
    have s: "sorted (map k (rev run))" by (rule strict_desc_rev_sorted [OF strict])
    have f: "filter (\<lambda>x. k x = v) (rev run) = filter (\<lambda>x. k x = v) run"
      by (rule strict_desc_rev_stable [OF strict])
    have app: "run @ drop n zs = xs" by (simp add: run_def xs)
    then have "set (rev run) \<union> set (drop n zs) = set xs"
      by (metis set_append set_rev)
    then have ko': "key_of lt k (set (rev run) \<union> set (drop n zs))" using ko by simp
    have ls: "listsort lt xs = binarysort lt (rev run) (drop n zs)"
      using False cr by (simp add: listsort_def xs run_def)
    have b: "sorted (map k (binarysort lt (rev run) (drop n zs)))
      \<and> filter (\<lambda>x. k x = v) (binarysort lt (rev run) (drop n zs))
          = filter (\<lambda>x. k x = v) (rev run @ drop n zs)"
      by (rule binarysort_sorted_stable [OF ko' s])
    have "filter (\<lambda>x. k x = v) (rev run @ drop n zs) = filter (\<lambda>x. k x = v) (run @ drop n zs)"
      using f by simp
    with b ls app show ?thesis by simp
  next
    case asc: False
    define n where "n = count_asc lt x zs"
    define run where "run = x # take n zs"
    have cr: "count_run lt xs = (1 + n, False)"
      using asc zs xs by (simp add: count_run_cons n_def)
    have s: "sorted (map k run)"
      unfolding run_def n_def by (rule count_asc_sorted [OF kx])
    have app: "run @ drop n zs = xs" by (simp add: run_def xs)
    then have "set run \<union> set (drop n zs) = set xs"
      by (metis set_append)
    then have ko': "key_of lt k (set run \<union> set (drop n zs))" using ko by simp
    have ls: "listsort lt xs = binarysort lt run (drop n zs)"
      using False cr by (simp add: listsort_def xs run_def)
    have b: "sorted (map k (binarysort lt run (drop n zs)))
      \<and> filter (\<lambda>x. k x = v) (binarysort lt run (drop n zs))
          = filter (\<lambda>x. k x = v) (run @ drop n zs)"
      by (rule binarysort_sorted_stable [OF ko' s])
    with ls app show ?thesis by simp
  qed
qed

lemma sorted_reverse_desc_stable:
  fixes k :: "'a \<Rightarrow> 'k::linorder"
  assumes ko: "key_of lt k (set xs)"
  shows "sorted_wrt (\<lambda>a b. k b \<le> k a) (sorted_reverse lt xs)
    \<and> filter (\<lambda>x. k x = v) (sorted_reverse lt xs) = filter (\<lambda>x. k x = v) xs"
proof -
  have ko': "key_of lt k (set (rev xs))" using ko by simp
  have l: "sorted (map k (listsort lt (rev xs)))
    \<and> filter (\<lambda>x. k x = v) (listsort lt (rev xs)) = filter (\<lambda>x. k x = v) (rev xs)"
    by (rule listsort_sorted_stable [OF ko'])
  then have "sorted_wrt (\<lambda>a b. k a \<le> k b) (listsort lt (rev xs))"
    by (simp add: sorted_map)
  then have d: "sorted_wrt (\<lambda>a b. k b \<le> k a) (sorted_reverse lt xs)"
    by (simp add: sorted_reverse_def sorted_wrt_rev)
  have "filter (\<lambda>x. k x = v) (sorted_reverse lt xs)
      = rev (filter (\<lambda>x. k x = v) (listsort lt (rev xs)))"
    by (simp add: sorted_reverse_def rev_filter)
  also have "\<dots> = rev (filter (\<lambda>x. k x = v) (rev xs))" using l by simp
  also have "\<dots> = filter (\<lambda>x. k x = v) xs" by (simp add: rev_filter)
  finally show ?thesis using d by simp
qed

subsection \<open>The order of the printed rows\<close>

lemma float_lt_fkey: "a \<noteq> NaN \<Longrightarrow> b \<noteq> NaN \<Longrightarrow> float_lt a b = (fkey a < fkey b)"
  by (cases a; cases b) simp_all

lemma fkey_inj: "(fkey a = fkey b) = (a = b)"
  by (cases a; cases b) simp_all

lemma float_eq_fkey: "a \<noteq> NaN \<Longrightarrow> b \<noteq> NaN \<Longrightarrow> float_eq a b = (fkey a = fkey b)"
  by (simp add: float_eq_def fkey_inj)

lemma float_ge_fkey: "a \<noteq> NaN \<Longrightarrow> b \<noteq> NaN \<Longrightarrow> float_ge a b = (fkey b \<le> fkey a)"
  by (auto simp: float_ge_def float_lt_fkey float_eq_fkey)

lemma row_lt_key_of: "\<forall>r\<in>A. fst r \<noteq> NaN \<Longrightarrow> key_of row_lt (\<lambda>r. fkey (fst r)) A"
  unfolding key_of_def row_lt_def
  by (auto intro!: float_lt_fkey)

lemma set_sorted_reverse: "set (sorted_reverse lt xs) = set xs"
  by (metis mset_sorted_reverse set_mset_mset)

lemma sorted_reverse_rows_nonincreasing:
  assumes "\<forall>r\<in>set rows. fst r \<noteq> NaN"
  shows "nonincreasing (map fst (sorted_reverse row_lt rows))"
proof -
  have ko: "key_of row_lt (\<lambda>r. fkey (fst r)) (set rows)"
    by (rule row_lt_key_of [OF assms])
  have d: "sorted_wrt (\<lambda>a b. fkey (fst b) \<le> fkey (fst a)) (sorted_reverse row_lt rows)"
    using sorted_reverse_desc_stable [OF ko] by simp
  have "sorted_wrt (\<lambda>a b. float_ge (fst a) (fst b)) (sorted_reverse row_lt rows)"
  proof (rule sorted_wrt_mono_rel [OF _ d])
    fix a b
    assume "a \<in> set (sorted_reverse row_lt rows)" and "b \<in> set (sorted_reverse row_lt rows)"
      and le: "fkey (fst b) \<le> fkey (fst a)"
    then have "fst a \<noteq> NaN" and "fst b \<noteq> NaN"
      using assms by (auto simp: set_sorted_reverse)
    with le show "float_ge (fst a) (fst b)" by (simp add: float_ge_fkey)
  qed
  then show ?thesis by (simp add: nonincreasing_def sorted_wrt_map)
qed

lemma sorted_reverse_rows_stable:
  assumes "\<forall>r\<in>set rows. fst r \<noteq> NaN"
  shows "keeps_input_order rows (sorted_reverse row_lt rows)"
  unfolding keeps_input_order_def
proof
  fix r
  assume r: "r \<in> set rows"
  have ko: "key_of row_lt (\<lambda>r. fkey (fst r)) (set rows)"
    by (rule row_lt_key_of [OF assms])
  have st: "filter (\<lambda>x. fkey (fst x) = fkey (fst r)) (sorted_reverse row_lt rows)
      = filter (\<lambda>x. fkey (fst x) = fkey (fst r)) rows"
    using sorted_reverse_desc_stable [OF ko] by simp
  have rn: "fst r \<noteq> NaN" using assms r by auto
  have e1: "filter (\<lambda>x. float_eq (fst x) (fst r)) rows
      = filter (\<lambda>x. fkey (fst x) = fkey (fst r)) rows"
    by (rule filter_cong) (use assms rn in \<open>auto simp: float_eq_fkey\<close>)
  have e2: "filter (\<lambda>x. float_eq (fst x) (fst r)) (sorted_reverse row_lt rows)
      = filter (\<lambda>x. fkey (fst x) = fkey (fst r)) (sorted_reverse row_lt rows)"
    by (rule filter_cong) (use assms rn in \<open>auto simp: float_eq_fkey set_sorted_reverse\<close>)
  show "filter (\<lambda>x. float_eq (fst x) (fst r)) (sorted_reverse row_lt rows)
      = filter (\<lambda>x. float_eq (fst x) (fst r)) rows"
    using st e1 e2 by simp
qed

text \<open>
  C1, as amended: in every run in which no printed score is NaN, the scores of the
  printed rows are non-increasing in the order of printing: each is \<open>>=\<close> every later one.
  This covers the runs that print no row (no file, or a line that does not parse).
\<close>

theorem printed_scores_nonincreasing:
  assumes "\<forall>r\<in>set (printed_rows (printed (rank_architectures float_of int_of fs f_arg))). fst r \<noteq> NaN"
  shows "nonincreasing (map fst (printed_rows (printed (rank_architectures float_of int_of fs f_arg))))"
proof (cases "fs (case f_arg of Some p \<Rightarrow> p | None \<Rightarrow> ''train_history.csv'')")
  case None
  then show ?thesis by (simp add: rank_architectures_def nonincreasing_def)
next
  case (Some content)
  show ?thesis
  proof (cases "parse_lines float_of int_of (iter_lines [] content)")
    case (Inl e)
    with Some show ?thesis by (simp add: rank_architectures_def nonincreasing_def)
  next
    case (Inr rows)
    have p: "printed_rows (printed (rank_architectures float_of int_of fs f_arg))
        = sorted_reverse row_lt rows"
      using Some Inr by (simp add: rank_architectures_def printed_rows_print_row refloat_id)
    have "\<forall>r\<in>set rows. fst r \<noteq> NaN"
      using assms unfolding p by (simp add: set_sorted_reverse)
    then show ?thesis
      unfolding p by (rule sorted_reverse_rows_nonincreasing)
  qed
qed

theorem printed_scores_nonincreasing_witness:
  "printed (rank_architectures dec_float dec_int
      [''h.csv'' \<mapsto> ''0.5,3,conv\<newline>0.75,1,pool\<newline>''] (Some ''h.csv''))
     = [RowOut (Finite (3 / 4)) [I 1, S ''pool''], RowOut (Finite (1 / 2)) [I 3, S ''conv'']]
   \<and> nonincreasing (map fst (printed_rows (printed (rank_architectures dec_float dec_int
      [''h.csv'' \<mapsto> ''0.5,3,conv\<newline>0.75,1,pool\<newline>''] (Some ''h.csv'')))))"
proof -
  have p: "printed (rank_architectures dec_float dec_int
      [''h.csv'' \<mapsto> ''0.5,3,conv\<newline>0.75,1,pool\<newline>''] (Some ''h.csv''))
     = [RowOut (Finite (3 / 4)) [I 1, S ''pool''], RowOut (Finite (1 / 2)) [I 3, S ''conv'']]"
    by code_simp
  have n: "\<forall>r\<in>set (printed_rows (printed (rank_architectures dec_float dec_int
      [''h.csv'' \<mapsto> ''0.5,3,conv\<newline>0.75,1,pool\<newline>''] (Some ''h.csv'')))). fst r \<noteq> NaN"
    unfolding p by simp
  show ?thesis
    using p printed_scores_nonincreasing [OF n] by simp
qed

text \<open>
  C1 as stated fails on the file of the two lines \<open>nan\<close> and \<open>1.0\<close>: \<open>float\<close> accepts
  \<open>nan\<close>, the rows are printed in this order, and \<open>nan >= 1.0\<close> is false.
\<close>

theorem nan_score_breaks_order:
  "printed (rank_architectures dec_float dec_int
      [''train_history.csv'' \<mapsto> ''nan\<newline>1.0\<newline>''] None)
     = [RowOut NaN [], RowOut (Finite 1) []]
   \<and> \<not> nonincreasing (map fst (printed_rows (printed (rank_architectures dec_float dec_int
      [''train_history.csv'' \<mapsto> ''nan\<newline>1.0\<newline>''] None))))"
proof -
  have p: "printed (rank_architectures dec_float dec_int
      [''train_history.csv'' \<mapsto> ''nan\<newline>1.0\<newline>''] None)
     = [RowOut NaN [], RowOut (Finite 1) []]"
    by code_simp
  show ?thesis
    unfolding p by (simp add: nonincreasing_def float_ge_def float_eq_def)
qed

text \<open>
  C9, as amended: when the file exists, every line of it parses and no score is NaN, the
  rows of equal score are printed in the order in which they stand in the file.
\<close>

theorem equal_scores_keep_input_order:
  assumes "fs (case f_arg of Some p \<Rightarrow> p | None \<Rightarrow> ''train_history.csv'') = Some content"
    and "parse_lines float_of int_of (iter_lines [] content) = Inr rows"
    and "\<forall>r\<in>set rows. fst r \<noteq> NaN"
  shows "keeps_input_order rows
           (printed_rows (printed (rank_architectures float_of int_of fs f_arg)))"
proof -
  have p: "printed_rows (printed (rank_architectures float_of int_of fs f_arg))
      = sorted_reverse row_lt rows"
    using assms(1,2) by (simp add: rank_architectures_def printed_rows_print_row refloat_id)
  show ?thesis
    unfolding p by (rule sorted_reverse_rows_stable [OF assms(3)])
qed

theorem equal_scores_keep_input_order_witness:
  "keeps_input_order [(Finite (1 / 2), [I 1]), (Finite (3 / 4), [I 2]), (Finite (1 / 2), [I 3])]
     (printed_rows (printed (rank_architectures dec_float dec_int
        [''h.csv'' \<mapsto> ''0.5,1\<newline>0.75,2\<newline>0.5,3\<newline>''] (Some ''h.csv''))))
   \<and> printed (rank_architectures dec_float dec_int
        [''h.csv'' \<mapsto> ''0.5,1\<newline>0.75,2\<newline>0.5,3\<newline>''] (Some ''h.csv''))
     = [RowOut (Finite (3 / 4)) [I 2], RowOut (Finite (1 / 2)) [I 1], RowOut (Finite (1 / 2)) [I 3]]"
proof -
  have f: "[''h.csv'' \<mapsto> ''0.5,1\<newline>0.75,2\<newline>0.5,3\<newline>'']
             (case Some ''h.csv'' of Some p \<Rightarrow> p | None \<Rightarrow> ''train_history.csv'')
           = Some ''0.5,1\<newline>0.75,2\<newline>0.5,3\<newline>''"
    by simp
  have p: "parse_lines dec_float dec_int (iter_lines [] ''0.5,1\<newline>0.75,2\<newline>0.5,3\<newline>'')
           = Inr [(Finite (1 / 2), [I 1]), (Finite (3 / 4), [I 2]), (Finite (1 / 2), [I 3])]"
    by code_simp
  have n: "\<forall>r\<in>set [(Finite (1 / 2), [I 1]), (Finite (3 / 4), [I 2]), (Finite (1 / 2), [I 3])].
             fst r \<noteq> NaN"
    by simp
  have o: "printed (rank_architectures dec_float dec_int
        [''h.csv'' \<mapsto> ''0.5,1\<newline>0.75,2\<newline>0.5,3\<newline>''] (Some ''h.csv''))
     = [RowOut (Finite (3 / 4)) [I 2], RowOut (Finite (1 / 2)) [I 1], RowOut (Finite (1 / 2)) [I 3]]"
    by code_simp
  show ?thesis
    using o equal_scores_keep_input_order
      [where fs = "[''h.csv'' \<mapsto> ''0.5,1\<newline>0.75,2\<newline>0.5,3\<newline>'']"
         and f_arg = "Some ''h.csv''" and float_of = dec_float and int_of = dec_int, OF f p n]
    by simp
qed

text \<open>
  C9 as stated fails on a file with NaN scores: of the two rows with score 2.0, the row
  \<open>2.0,1\<close> stands first in the file and is printed after the row \<open>2.0,2\<close>. The binary
  insertion compares the last row inserted with a NaN and with 9.0 and never with its
  equal.
\<close>

theorem nan_score_breaks_stability:
  "parse_lines dec_float dec_int
     (iter_lines [] ''2.0,1\<newline>0.0\<newline>2.0,2\<newline>nan\<newline>9.0\<newline>nan\<newline>nan\<newline>'')
     = Inr [(Finite 2, [I 1]), (Finite 0, []), (Finite 2, [I 2]), (NaN, []), (Finite 9, []),
            (NaN, []), (NaN, [])]
   \<and> printed (rank_architectures dec_float dec_int
        [''h.csv'' \<mapsto> ''2.0,1\<newline>0.0\<newline>2.0,2\<newline>nan\<newline>9.0\<newline>nan\<newline>nan\<newline>'']
        (Some ''h.csv''))
     = [RowOut (Finite 2) [I 2], RowOut NaN [], RowOut (Finite 9) [], RowOut (Finite 2) [I 1],
        RowOut (Finite 0) [], RowOut NaN [], RowOut NaN []]
   \<and> \<not> keeps_input_order
        [(Finite 2, [I 1]), (Finite 0, []), (Finite 2, [I 2]), (NaN, []), (Finite 9, []),
         (NaN, []), (NaN, [])]
        (printed_rows (printed (rank_architectures dec_float dec_int
           [''h.csv'' \<mapsto> ''2.0,1\<newline>0.0\<newline>2.0,2\<newline>nan\<newline>9.0\<newline>nan\<newline>nan\<newline>'']
           (Some ''h.csv''))))"
proof -
  have i: "parse_lines dec_float dec_int
     (iter_lines [] ''2.0,1\<newline>0.0\<newline>2.0,2\<newline>nan\<newline>9.0\<newline>nan\<newline>nan\<newline>'')
     = Inr [(Finite 2, [I 1]), (Finite 0, []), (Finite 2, [I 2]), (NaN, []), (Finite 9, []),
            (NaN, []), (NaN, [])]"
    by code_simp
  have o: "printed (rank_architectures dec_float dec_int
        [''h.csv'' \<mapsto> ''2.0,1\<newline>0.0\<newline>2.0,2\<newline>nan\<newline>9.0\<newline>nan\<newline>nan\<newline>'']
        (Some ''h.csv''))
     = [RowOut (Finite 2) [I 2], RowOut NaN [], RowOut (Finite 9) [], RowOut (Finite 2) [I 1],
        RowOut (Finite 0) [], RowOut NaN [], RowOut NaN []]"
    by code_simp
  have k: "\<not> keeps_input_order
        [(Finite 2, [I 1]), (Finite 0, []), (Finite 2, [I 2]), (NaN, []), (Finite 9, []),
         (NaN, []), (NaN, [])]
        [(Finite 2, [I 2]), (NaN, []), (Finite 9, []), (Finite 2, [I 1]),
         (Finite 0, []), (NaN, []), (NaN, [])]"
    by (simp add: keeps_input_order_def float_eq_def)
  show ?thesis
    using i k unfolding o by simp
qed

subsection \<open>Termination without a file\<close>

text \<open>
  C10: when the file named by \<open>-f\<close>, or \<open>train_history.csv\<close> when the option is absent,
  does not exist, the script prints the message of line 15 and nothing else, ends in
  \<open>exit()\<close> with no exception, and has opened no file.
\<close>

theorem missing_file_message:
  "fs (case f_arg of Some p \<Rightarrow> p | None \<Rightarrow> ''train_history.csv'') = None \<Longrightarrow>
   rank_architectures float_of int_of fs f_arg =
     \<lparr>printed = [Message ''Please run `train.py` script to generate architectures first !''],
      opened = [], ending = Exited\<rparr>"
  by (simp add: rank_architectures_def)

theorem missing_file_message_witness:
  "rank_architectures dec_float dec_int Map.empty None =
     \<lparr>printed = [Message ''Please run `train.py` script to generate architectures first !''],
      opened = [], ending = Exited\<rparr>"
  using missing_file_message [of Map.empty None dec_float dec_int] by simp

section \<open>Properties of manager.py\<close>

subsection \<open>Reasoning about computations\<close>

lemmas comp_defs = bind_def call_def print_def return_def raise_def

lemma bindE:
  assumes "bind m f w = (r, w', t)"
  obtains (fail) e where "m w = (Inl e, w', t)" and "r = Inl e"
  | (ok) x w1 t1 t2 where "m w = (Inr x, w1, t1)" and "f x w1 = (r, w', t2)" and "t = t1 @ t2"
  using assms by (auto simp: bind_def split: prod.splits sum.splits)

lemma callE:
  assumes "call ev shown f w = (r, w', t)"
  obtains (fail) e where "f w = (Inl e, w')" and "r = Inl e" and "t = [(ev, Raised e)]"
  | (ok) x where "f w = (Inr x, w')" and "r = Inr x" and "t = [(ev, shown x)]"
  using assms by (auto simp: call_def split: prod.splits sum.splits)

lemma return_iff [simp]: "(return x w = (r, w', t)) = (r = Inr x \<and> w' = w \<and> t = [])"
  by (auto simp: return_def)

lemma raise_iff [simp]: "(raise e w = (r, w', t)) = (r = Inl e \<and> w' = w \<and> t = [])"
  by (auto simp: raise_def)

lemma print_iff [simp]: "(print ev w = (r, w', t)) = (r = Inr () \<and> w' = w \<and> t = [(ev, Nothing)])"
  by (auto simp: print_def)

lemma with_sessionE:
  assumes "with_session fw sess body w = (r, w', t)"
  obtains ns wa wb tb where "session_enter fw sess w = (ns, wa)"
    and "body ns wa = (r, wb, tb)"
    and "w' = session_exit fw sess (raised r) wb"
    and "t = (Enter sess, Object ns) # tb @ [(Exit sess (raised r), Nothing)]"
  using assms by (auto simp: with_session_def split: prod.splits)

subsection \<open>The body of the with statement\<close>

lemma train_returns:
  assumes "train fw self model w = (Inr val, w', t)"
  shows "(\<not> use_generator self \<and>
      (\<exists>X_train y_train X_val y_val cb w1.
         dataset self = [X_train, y_train, X_val, y_val] \<and> val = Some (X_val, y_val) \<and>
         ModelCheckpoint fw weights_path (monitor self) w = (Inr cb, w1) \<and>
         model_fit fw model X_train y_train (batchsize self) (epochs self) (X_val, y_val) [cb] w1
           = (Inr (), w') \<and>
         t = [(Checkpoint weights_path (monitor self), Object cb),
              (Fit model X_train y_train (batchsize self) (epochs self) (X_val, y_val) [cb], Nothing)]))
    \<or> (use_generator self \<and> val = None)"
  using assms
  by (auto simp: train_def elim!: bindE callE split: list.splits if_splits)

lemma with_body_returns:
  assumes "with_body fw self model_fn actions ns wa = (Inr reward, wb, tb)"
  shows "static_body fw self model_fn actions ns wa reward wb tb"
  using assms unfolding with_body_def static_body_def
  by (auto elim!: bindE callE dest!: train_returns split: option.splits list.splits)

lemma static_body_returns:
  assumes "static_body fw self model_fn actions ns wa reward wb tb"
  shows "with_body fw self model_fn actions ns wa = (Inr reward, wb, tb)"
  using assms unfolding static_body_def
  by (auto simp: with_body_def train_def comp_defs)

lemma with_body_raised:
  assumes "with_body fw self model_fn actions ns w = (r, w', t)" and "(ev, Raised e) \<in> set t"
  shows "r = Inl e"
  using assms unfolding with_body_def train_def
  by (auto elim!: bindE callE split: option.splits list.splits if_splits)

lemma with_body_steps:
  assumes "with_body fw self model_fn actions ns w = (r, w', t)"
  shows "prefix (steps t) all_steps"
  using assms unfolding with_body_def train_def
  by (auto elim!: bindE callE split: option.splits list.splits if_splits
      simp: steps_def step_of_def all_steps_def List.map_filter_simps)

lemma with_body_no_session_event:
  assumes "with_body fw self model_fn actions ns w = (r, w', t)" and "x \<in> set t"
  shows "\<not> is_session_event (fst x)"
  using assms unfolding with_body_def train_def
  by (auto elim!: bindE callE split: option.splits list.splits if_splits
      simp: is_session_event_def)

lemma with_body_generator:
  assumes "with_body fw self model_fn actions ns w = (r, w', t)" and "use_generator self"
  shows "(\<exists>e. r = Inl e)
    \<and> (\<forall>m p. (Load_weights m p, Nothing) \<in> set t \<longrightarrow> r = Inl (UnboundLocalError ''X_val''))
    \<and> (\<forall>m x y b out. (Evaluate m x y b, out) \<notin> set t)"
  using assms unfolding with_body_def train_def
  by (auto elim!: bindE callE split: option.splits list.splits if_splits)

lemma with_body_own_error:
  assumes "with_body fw self model_fn actions ns w = (Inl e, w', t)"
    and "\<not> use_generator self" and "length (dataset self) = 4"
    and "\<forall>m x y b rs. (Evaluate m x y b, Scalars rs) \<in> set t \<longrightarrow> length rs = 2"
  shows "\<exists>ev. (ev, Raised e) \<in> set t"
  using assms unfolding with_body_def train_def
  by (auto elim!: bindE callE split: option.splits list.splits if_splits)


subsection \<open>The runs of get\_rewards\<close>

lemma entered_bodyE:
  assumes "with_session fw sess
             (\<lambda>network_sess. bind (with_body fw self model_fn actions network_sess)
                (\<lambda>reward. return (network_sess, reward))) w2 = (rx, w3, t)"
  obtains (body_raises) ns wa e wb tb where "session_enter fw sess w2 = (ns, wa)"
      and "with_body fw self model_fn actions ns wa = (Inl e, wb, tb)"
      and "rx = Inl e" and "w3 = session_exit fw sess (Some e) wb"
      and "t = (Enter sess, Object ns) # tb @ [(Exit sess (Some e), Nothing)]"
  | (body_returns) ns wa reward wb tb where "session_enter fw sess w2 = (ns, wa)"
      and "with_body fw self model_fn actions ns wa = (Inr reward, wb, tb)"
      and "rx = Inr (ns, reward)" and "w3 = session_exit fw sess None wb"
      and "t = (Enter sess, Object ns) # tb @ [(Exit sess None, Nothing)]"
  using assms by (elim with_sessionE bindE) (auto simp: raised_def)

lemma get_rewardsE:
  assumes "get_rewards fw self model_fn actions w = (r, w', t)"
  obtains (graph_fails) e where "tf_Graph fw w = (Inl e, w')"
      and "t = [(Graph_call, Raised e)]" and "r = Inl e"
  | (session_fails) g w1 e where "tf_Graph fw w = (Inr g, w1)"
      and "tf_Session fw g w1 = (Inl e, w')"
      and "t = [(Graph_call, Object g), (Session_call g, Raised e)]" and "r = Inl e"
  | (body_fails) g w1 sess w2 ns wa e wb tb where "tf_Graph fw w = (Inr g, w1)"
      and "tf_Session fw g w1 = (Inr sess, w2)"
      and "session_enter fw sess w2 = (ns, wa)"
      and "with_body fw self model_fn actions ns wa = (Inl e, wb, tb)"
      and "w' = session_exit fw sess (Some e) wb"
      and "t = [(Graph_call, Object g), (Session_call g, Object sess), (Enter sess, Object ns)]
               @ tb @ [(Exit sess (Some e), Nothing)]"
      and "r = Inl e"
  | (close_fails) g w1 sess w2 ns wa reward e wb tb where "tf_Graph fw w = (Inr g, w1)"
      and "tf_Session fw g w1 = (Inr sess, w2)"
      and "session_enter fw sess w2 = (ns, wa)"
      and "with_body fw self model_fn actions ns wa = (Inr reward, wb, tb)"
      and "session_close fw ns (session_exit fw sess None wb) = (Inl e, w')"
      and "t = [(Graph_call, Object g), (Session_call g, Object sess), (Enter sess, Object ns)]
               @ tb @ [(Exit sess None, Nothing), (Close ns, Raised e)]"
      and "r = Inl e"
  | (returns) g w1 sess w2 ns wa reward wb tb where "tf_Graph fw w = (Inr g, w1)"
      and "tf_Session fw g w1 = (Inr sess, w2)"
      and "session_enter fw sess w2 = (ns, wa)"
      and "with_body fw self model_fn actions ns wa = (Inr reward, wb, tb)"
      and "session_close fw ns (session_exit fw sess None wb) = (Inr (), w')"
      and "t = [(Graph_call, Object g), (Session_call g, Object sess), (Enter sess, Object ns)]
               @ tb @ [(Exit sess None, Nothing), (Close ns, Nothing)]"
      and "r = Inr reward"
proof -
  show thesis
    using assms unfolding get_rewards_def
    apply (elim bindE callE entered_bodyE)
            apply simp_all
        apply (rule graph_fails; simp)
       apply (rule session_fails; simp)
      apply (rule body_fails; simp)
    apply (elim bindE callE)
     apply simp_all
     apply (rule close_fails; simp)
    apply (rule returns; simp)
    done
qed


lemma get_rewards_returns_iff:
  "(get_rewards fw self model_fn actions w = (Inr reward, w', t))
     = returned_run fw self model_fn actions w reward w' t"
proof
  assume "get_rewards fw self model_fn actions w = (Inr reward, w', t)"
  then show "returned_run fw self model_fn actions w reward w' t"
  proof (cases rule: get_rewardsE)
    case (returns g w1 sess w2 ns wa reward' wb tb)
    then have "static_body fw self model_fn actions ns wa reward wb tb"
      using with_body_returns [of fw self model_fn actions ns wa reward wb tb] by simp
    with returns show ?thesis unfolding returned_run_def by blast
  qed simp_all
next
  assume "returned_run fw self model_fn actions w reward w' t"
  then obtain g w1 sess w2 ns wa wb tb where
    1: "tf_Graph fw w = (Inr g, w1)" and 2: "tf_Session fw g w1 = (Inr sess, w2)"
    and 3: "session_enter fw sess w2 = (ns, wa)"
    and 4: "static_body fw self model_fn actions ns wa reward wb tb"
    and 5: "session_close fw ns (session_exit fw sess None wb) = (Inr (), w')"
    and 6: "t = [(Graph_call, Object g), (Session_call g, Object sess), (Enter sess, Object ns)]
                @ tb @ [(Exit sess None, Nothing), (Close ns, Nothing)]"
    unfolding returned_run_def by blast
  have b: "with_body fw self model_fn actions ns wa = (Inr reward, wb, tb)"
    by (rule static_body_returns [OF 4])
  show "get_rewards fw self model_fn actions w = (Inr reward, w', t)"
    by (simp add: get_rewards_def with_session_def comp_defs raised_def 1 2 3 5 6 b)
qed

lemma steps_append: "steps (a @ b) = steps a @ steps b"
  by (simp add: steps_def List.map_filter_def)

lemma steps_session_prologue:
  "steps ([(Graph_call, a), (Session_call g, b), (Enter s, c)] @ t) = steps t"
  by (simp add: steps_def step_of_def List.map_filter_simps)

lemma steps_session_epilogue:
  "steps [(Exit s x, a)] = []" "steps [(Exit s x, a), (Close n, b)] = []"
  by (simp_all add: steps_def step_of_def List.map_filter_simps)

lemma get_rewards_steps:
  assumes "get_rewards fw self model_fn actions w = (r, w', t)"
  shows "prefix (steps t) all_steps"
  using assms
proof (cases rule: get_rewardsE)
  case (graph_fails e)
  then show ?thesis by (simp add: steps_def step_of_def List.map_filter_simps)
next
  case (session_fails g w1 e)
  then show ?thesis by (simp add: steps_def step_of_def List.map_filter_simps)
next
  case (body_fails g w1 sess w2 ns wa e wb tb)
  from with_body_steps [OF body_fails(4)] show ?thesis
    unfolding body_fails(6) steps_session_prologue
    by (simp add: steps_append steps_session_epilogue)
next
  case (close_fails g w1 sess w2 ns wa reward e wb tb)
  from with_body_steps [OF close_fails(4)] show ?thesis
    unfolding close_fails(6) steps_session_prologue
    by (simp add: steps_append steps_session_epilogue)
next
  case (returns g w1 sess w2 ns wa reward wb tb)
  from with_body_steps [OF returns(4)] show ?thesis
    unfolding returns(6) steps_session_prologue
    by (simp add: steps_append steps_session_epilogue)
qed

lemma returned_run_steps:
  assumes "returned_run fw self model_fn actions w reward w' t"
  shows "steps t = all_steps"
  using assms unfolding returned_run_def static_body_def
  by (auto simp: steps_def step_of_def all_steps_def List.map_filter_simps)

lemma get_rewards_own_error:
  assumes run: "get_rewards fw self model_fn actions w = (Inl e, w', t)"
    and ng: "\<not> use_generator self" and ds: "length (dataset self) = 4"
    and ev: "\<forall>m x y b rs. (Evaluate m x y b, Scalars rs) \<in> set t \<longrightarrow> length rs = 2"
  shows "\<exists>ev. (ev, Raised e) \<in> set t"
  using run
proof (cases rule: get_rewardsE)
  case (body_fails g w1 sess w2 ns wa e' wb tb)
  have "\<forall>m x y b rs. (Evaluate m x y b, Scalars rs) \<in> set tb \<longrightarrow> length rs = 2"
    using ev body_fails(6) by simp
  from with_body_own_error [OF body_fails(4) ng ds this] body_fails(6,7)
  show ?thesis by auto
qed auto



subsection \<open>Concrete runs\<close>

lemma static_run:
  "get_rewards ok_framework static_manager ok_model_fn [1, 2] (0, []) =
     (Inr (9 / 10), (5, []),
      [(Graph_call, Object 0), (Session_call 0, Object 1), (Enter 1, Object 1),
       (Set_session 1, Nothing), (Model_fn [1, 2], Object 2), (Adam_call, Object 3),
       (Compile 2 3 ''categorical_crossentropy'' [''accuracy''], Nothing),
       (Checkpoint ''weights/temp_network.h5'' ''val_acc'', Object 4),
       (Fit 2 ''X_train'' ''y_train'' 128 5 (''X_val'', ''y_val'') [4], Nothing),
       (Load_weights 2 ''weights/temp_network.h5'', Nothing),
       (Evaluate 2 ''X_val'' ''y_val'' 128, Scalars [1 / 4, 9 / 10]),
       (Print_blank, Nothing), (Print_accuracy (9 / 10), Nothing),
       (Exit 1 None, Nothing), (Close 1, Nothing)])"
  by code_simp

lemma generator_run:
  "get_rewards ok_framework generator_manager ok_model_fn [1, 2] (0, []) =
     (Inl (UnboundLocalError ''X_val''), (5, []),
      [(Graph_call, Object 0), (Session_call 0, Object 1), (Enter 1, Object 1),
       (Set_session 1, Nothing), (Model_fn [1, 2], Object 2), (Adam_call, Object 3),
       (Compile 2 3 ''categorical_crossentropy'' [''accuracy''], Nothing),
       (Checkpoint ''weights/temp_network.h5'' ''val_acc'', Object 4),
       (Fit_generator 2 ''training_generator'' ''validation_generator'' 5 [4], Nothing),
       (Load_weights 2 ''weights/temp_network.h5'', Nothing),
       (Exit 1 (Some (UnboundLocalError ''X_val'')), Nothing)])"
  by code_simp

lemma broken_run:
  "get_rewards broken_compile static_manager ok_model_fn [1, 2] (0, []) =
     (Inl (Framework ''compile failed''), (4, []),
      [(Graph_call, Object 0), (Session_call 0, Object 1), (Enter 1, Object 1),
       (Set_session 1, Nothing), (Model_fn [1, 2], Object 2), (Adam_call, Object 3),
       (Compile 2 3 ''categorical_crossentropy'' [''accuracy''],
        Raised (Framework ''compile failed'')),
       (Exit 1 (Some (Framework ''compile failed'')), Nothing)])"
  by code_simp

lemma static_manager_fields:
  "dataset static_manager = [''X_train'', ''y_train'', ''X_val'', ''y_val'']"
  "batchsize static_manager = 128" "epochs static_manager = 5"
  "use_generator static_manager = False" "monitor static_manager = ''val_acc''"
  by (simp_all add: static_manager_def NetworkManager_init_def)

subsection \<open>The reward\<close>

text \<open>
  C2: a call of \<open>get_rewards\<close> that returns is a \<open>returned_run\<close>: the model that
  \<open>model_fn(actions)\<close> built was compiled with the accuracy metric, fitted, reloaded and then
  evaluated on \<open>X_val\<close> and \<open>y_val\<close>, the third and fourth component of the dataset; that
  call of \<open>evaluate\<close>, the only one of the run, returned a loss and an accuracy, and the
  reward returned is this accuracy, unchanged.
\<close>

theorem reward_is_evaluated_accuracy:
  assumes "get_rewards fw self model_fn actions w = (Inr reward, w', t)"
  shows "returned_run fw self model_fn actions w reward w' t
    \<and> (\<exists>X_train y_train X_val y_val model loss wm wm' we we'.
          dataset self = [X_train, y_train, X_val, y_val]
          \<and> model_fn actions wm = (Inr model, wm')
          \<and> model_evaluate fw model X_val y_val (batchsize self) we = (Inr [loss, reward], we')
          \<and> (\<forall>m x y b out. (Evaluate m x y b, out) \<in> set t \<longrightarrow>
                m = model \<and> x = X_val \<and> y = y_val \<and> b = batchsize self
                \<and> out = Scalars [loss, reward]))"
proof
  show rr: "returned_run fw self model_fn actions w reward w' t"
    using assms by (simp add: get_rewards_returns_iff)
  then obtain g w1 sess w2 ns wa wb tb where
    sb: "static_body fw self model_fn actions ns wa reward wb tb"
    and t: "t = [(Graph_call, Object g), (Session_call g, Object sess), (Enter sess, Object ns)]
                @ tb @ [(Exit sess None, Nothing), (Close ns, Nothing)]"
    unfolding returned_run_def by blast
  from sb obtain X_train y_train X_val y_val model optimizer cb loss wm wm' we where
    ds: "dataset self = [X_train, y_train, X_val, y_val]"
    and mf: "model_fn actions wm = (Inr model, wm')"
    and ev: "model_evaluate fw model X_val y_val (batchsize self) we = (Inr [loss, reward], wb)"
    and tb: "tb = [(Set_session ns, Nothing), (Model_fn actions, Object model),
                  (Adam_call, Object optimizer),
                  (Compile model optimizer ''categorical_crossentropy'' [''accuracy''], Nothing),
                  (Checkpoint weights_path (monitor self), Object cb),
                  (Fit model X_train y_train (batchsize self) (epochs self) (X_val, y_val) [cb],
                   Nothing),
                  (Load_weights model weights_path, Nothing),
                  (Evaluate model X_val y_val (batchsize self), Scalars [loss, reward]),
                  (Print_blank, Nothing), (Print_accuracy reward, Nothing)]"
    unfolding static_body_def by blast
  have only: "\<forall>m x y b out. (Evaluate m x y b, out) \<in> set t \<longrightarrow>
                m = model \<and> x = X_val \<and> y = y_val \<and> b = batchsize self
                \<and> out = Scalars [loss, reward]"
    unfolding t tb by simp
  show "\<exists>X_train y_train X_val y_val model loss wm wm' we we'.
          dataset self = [X_train, y_train, X_val, y_val]
          \<and> model_fn actions wm = (Inr model, wm')
          \<and> model_evaluate fw model X_val y_val (batchsize self) we = (Inr [loss, reward], we')
          \<and> (\<forall>m x y b out. (Evaluate m x y b, out) \<in> set t \<longrightarrow>
                m = model \<and> x = X_val \<and> y = y_val \<and> b = batchsize self
                \<and> out = Scalars [loss, reward])"
    using ds mf ev only by blast
qed

theorem reward_is_evaluated_accuracy_witness:
  "returned_run ok_framework static_manager ok_model_fn [1, 2] (0, []) (9 / 10) (5, [])
     (snd (snd (get_rewards ok_framework static_manager ok_model_fn [1, 2] (0, []))))
   \<and> filter (\<lambda>x. step_of (fst x) = Some Evaluate_model)
         (snd (snd (get_rewards ok_framework static_manager ok_model_fn [1, 2] (0, []))))
       = [(Evaluate 2 ''X_val'' ''y_val'' 128, Scalars [1 / 4, 9 / 10])]"
proof -
  note th = reward_is_evaluated_accuracy [OF static_run]
  have a: "returned_run ok_framework static_manager ok_model_fn [1, 2] (0, []) (9 / 10) (5, [])
     (snd (snd (get_rewards ok_framework static_manager ok_model_fn [1, 2] (0, []))))"
    unfolding static_run snd_conv using th by (rule conjunct1)
  have b: "filter (\<lambda>x. step_of (fst x) = Some Evaluate_model)
         (snd (snd (get_rewards ok_framework static_manager ok_model_fn [1, 2] (0, []))))
       = [(Evaluate 2 ''X_val'' ''y_val'' 128, Scalars [1 / 4, 9 / 10])]"
    unfolding static_run snd_conv by (simp add: step_of_def)
  show ?thesis using a b by (rule conjI)
qed

subsection \<open>The order of the steps\<close>

text \<open>
  C3, as amended: in every call the steps that are performed are an initial part of the
  fixed order build, compile, fit, reload, evaluate; a call that returns has performed all
  five as \<open>returned_run\<close> describes them (one model, built from the actions, through all
  steps; the checkpoint callback on \<open>weights/temp_network.h5\<close> passed to \<open>fit\<close> and the same
  file reloaded) and returns one number; and a call on four arrays, without generator, in
  which no call raised and \<open>evaluate\<close> returned two numbers has returned.
\<close>

theorem steps_in_fixed_order:
  assumes "get_rewards fw self model_fn actions w = (r, w', t)"
  shows "prefix (steps t) all_steps
    \<and> (\<forall>reward. r = Inr reward \<longrightarrow>
          steps t = all_steps \<and> returned_run fw self model_fn actions w reward w' t)
    \<and> ((\<forall>ev e. (ev, Raised e) \<notin> set t) \<and> \<not> use_generator self \<and> length (dataset self) = 4
         \<and> (\<forall>m x y b rs. (Evaluate m x y b, Scalars rs) \<in> set t \<longrightarrow> length rs = 2)
        \<longrightarrow> (\<exists>reward. r = Inr reward))"
proof (intro conjI allI impI)
  show "prefix (steps t) all_steps" by (rule get_rewards_steps [OF assms])
next
  fix reward
  assume "r = Inr reward"
  with assms show rr: "returned_run fw self model_fn actions w reward w' t"
    by (simp add: get_rewards_returns_iff)
  then show "steps t = all_steps" by (rule returned_run_steps)
next
  assume a: "(\<forall>ev e. (ev, Raised e) \<notin> set t) \<and> \<not> use_generator self \<and> length (dataset self) = 4
         \<and> (\<forall>m x y b rs. (Evaluate m x y b, Scalars rs) \<in> set t \<longrightarrow> length rs = 2)"
  show "\<exists>reward. r = Inr reward"
  proof (cases r)
    case (Inr reward)
    then show ?thesis by blast
  next
    case (Inl e)
    with assms have run: "get_rewards fw self model_fn actions w = (Inl e, w', t)" by simp
    from a have ng: "\<not> use_generator self" and ds: "length (dataset self) = 4"
      and ev: "\<forall>m x y b rs. (Evaluate m x y b, Scalars rs) \<in> set t \<longrightarrow> length rs = 2"
      by blast+
    from get_rewards_own_error [OF run ng ds ev] a show ?thesis by blast
  qed
qed

theorem steps_in_fixed_order_witness:
  "steps (snd (snd (get_rewards ok_framework static_manager ok_model_fn [1, 2] (0, [])))) = all_steps
   \<and> fst (get_rewards ok_framework static_manager ok_model_fn [1, 2] (0, [])) = Inr (9 / 10)
   \<and> (\<forall>ev e. (ev, Raised e)
         \<notin> set (snd (snd (get_rewards ok_framework static_manager ok_model_fn [1, 2] (0, [])))))
   \<and> \<not> use_generator static_manager \<and> length (dataset static_manager) = 4"
proof -
  note th = steps_in_fixed_order [OF static_run]
  have a: "steps (snd (snd (get_rewards ok_framework static_manager ok_model_fn [1, 2] (0, []))))
      = all_steps"
    unfolding static_run snd_conv using th by blast
  have b: "fst (get_rewards ok_framework static_manager ok_model_fn [1, 2] (0, [])) = Inr (9 / 10)"
    by (simp add: static_run)
  have c: "\<forall>ev e. (ev, Raised e)
         \<notin> set (snd (snd (get_rewards ok_framework static_manager ok_model_fn [1, 2] (0, []))))"
    unfolding static_run snd_conv by simp
  have d: "\<not> use_generator static_manager \<and> length (dataset static_manager) = 4"
    by (simp add: static_manager_fields)
  show ?thesis
    using a b c d by blast
qed

text \<open>
  C3 as stated fails: with a \<open>compile\<close> that raises, the call performs the steps build and
  compile only and returns no number; the exception goes to the caller.
\<close>

theorem failing_compile_ends_the_steps:
  "fst (get_rewards broken_compile static_manager ok_model_fn [1, 2] (0, []))
     = Inl (Framework ''compile failed'')
   \<and> steps (snd (snd (get_rewards broken_compile static_manager ok_model_fn [1, 2] (0, []))))
     = [Build, Compile_model]"
  by (simp add: broken_run steps_def step_of_def)

subsection \<open>Generators\<close>

text \<open>
  C5: with \<open>use_generator\<close> set, no call of \<open>get_rewards\<close> returns a reward. \<open>evaluate\<close>
  is never called, and a call that has come past \<open>load_weights\<close> raises the
  UnboundLocalError (a NameError) of the unbound local \<open>X_val\<close>.
\<close>

theorem generator_never_returns:
  assumes "use_generator self" and "get_rewards fw self model_fn actions w = (r, w', t)"
  shows "(\<exists>e. r = Inl e)
    \<and> (\<forall>m p. (Load_weights m p, Nothing) \<in> set t \<longrightarrow> r = Inl (UnboundLocalError ''X_val''))
    \<and> (\<forall>m x y b out. (Evaluate m x y b, out) \<notin> set t)"
  using assms(2)
proof (cases rule: get_rewardsE)
  case (body_fails g w1 sess w2 ns wa e wb tb)
  from with_body_generator [OF body_fails(4) assms(1)] body_fails(6,7) show ?thesis by auto
next
  case (close_fails g w1 sess w2 ns wa reward e wb tb)
  from with_body_generator [OF close_fails(4) assms(1)] show ?thesis by simp
next
  case (returns g w1 sess w2 ns wa reward wb tb)
  from with_body_generator [OF returns(4) assms(1)] show ?thesis by simp
qed auto

theorem generator_never_returns_witness:
  "use_generator generator_manager
   \<and> get_rewards ok_framework generator_manager ok_model_fn [1, 2] (0, []) =
     (Inl (UnboundLocalError ''X_val''), (5, []),
      [(Graph_call, Object 0), (Session_call 0, Object 1), (Enter 1, Object 1),
       (Set_session 1, Nothing), (Model_fn [1, 2], Object 2), (Adam_call, Object 3),
       (Compile 2 3 ''categorical_crossentropy'' [''accuracy''], Nothing),
       (Checkpoint ''weights/temp_network.h5'' ''val_acc'', Object 4),
       (Fit_generator 2 ''training_generator'' ''validation_generator'' 5 [4], Nothing),
       (Load_weights 2 ''weights/temp_network.h5'', Nothing),
       (Exit 1 (Some (UnboundLocalError ''X_val'')), Nothing)])"
proof -
  have g: "use_generator generator_manager"
    by (simp add: generator_manager_def NetworkManager_init_def)
  show ?thesis
    using g generator_never_returns [OF g generator_run] generator_run by simp
qed

subsection \<open>Exceptions\<close>

text \<open>
  C6: an exception raised by any call that \<open>get_rewards\<close> makes (the model-building
  function, \<open>compile\<close>, \<open>fit\<close>, \<open>load_weights\<close>, \<open>evaluate\<close> and the others) is the
  exception that \<open>get_rewards\<close> raises: none is caught, replaced or suppressed.
\<close>

theorem exceptions_propagate:
  assumes "get_rewards fw self model_fn actions w = (r, w', t)" and "(ev, Raised e) \<in> set t"
  shows "r = Inl e"
  using assms(1)
proof (cases rule: get_rewardsE)
  case (graph_fails e')
  with assms(2) show ?thesis by simp
next
  case (session_fails g w1 e')
  with assms(2) show ?thesis by simp
next
  case (body_fails g w1 sess w2 ns wa e' wb tb)
  with assms(2) have "(ev, Raised e) \<in> set tb" by simp
  from with_body_raised [OF body_fails(4) this] body_fails(7) show ?thesis by simp
next
  case (close_fails g w1 sess w2 ns wa reward e' wb tb)
  with assms(2) have "(ev, Raised e) \<in> set tb \<or> e' = e" by auto
  then show ?thesis
  proof
    assume "(ev, Raised e) \<in> set tb"
    from with_body_raised [OF close_fails(4) this] show ?thesis by simp
  next
    assume "e' = e"
    with close_fails(7) show ?thesis by simp
  qed
next
  case (returns g w1 sess w2 ns wa reward wb tb)
  with assms(2) have "(ev, Raised e) \<in> set tb" by simp
  from with_body_raised [OF returns(4) this] show ?thesis by simp
qed

theorem exceptions_propagate_witness:
  "(Compile 2 3 ''categorical_crossentropy'' [''accuracy''], Raised (Framework ''compile failed''))
     \<in> set (snd (snd (get_rewards broken_compile static_manager ok_model_fn [1, 2] (0, []))))
   \<and> fst (get_rewards broken_compile static_manager ok_model_fn [1, 2] (0, []))
     = Inl (Framework ''compile failed'')"
proof -
  have m: "(Compile 2 3 ''categorical_crossentropy'' [''accuracy''],
            Raised (Framework ''compile failed''))
     \<in> set (snd (snd (get_rewards broken_compile static_manager ok_model_fn [1, 2] (0, []))))"
    by (simp add: broken_run)
  have r: "get_rewards broken_compile static_manager ok_model_fn [1, 2] (0, [])
      = (fst (get_rewards broken_compile static_manager ok_model_fn [1, 2] (0, [])),
         fst (snd (get_rewards broken_compile static_manager ok_model_fn [1, 2] (0, []))),
         snd (snd (get_rewards broken_compile static_manager ok_model_fn [1, 2] (0, []))))"
    by simp
  show ?thesis
    using exceptions_propagate [OF r m] m by simp
qed

subsection \<open>The session\<close>

text \<open>
  C7, as amended: every call first creates a graph and then a session on that graph, and
  ends there, with the exception, when one of the two constructors raises. Otherwise the
  session is entered before any other call, the calls of the body create, enter, leave or
  close no graph or session, and after the body \<open>__exit__\<close> is applied to that session,
  whether the body returned or raised; when the body returned, \<open>close\<close> is applied to the
  session after \<open>__exit__\<close>, and a call that returns a reward has completed both. The
  final state is the one that these calls leave.
\<close>

theorem session_around_run:
  assumes "get_rewards fw self model_fn actions w = (r, w', t)"
  shows "(\<exists>e. tf_Graph fw w = (Inl e, w') \<and> t = [(Graph_call, Raised e)] \<and> r = Inl e)
    \<or> (\<exists>g w1 e. tf_Graph fw w = (Inr g, w1) \<and> tf_Session fw g w1 = (Inl e, w')
          \<and> t = [(Graph_call, Object g), (Session_call g, Raised e)] \<and> r = Inl e)
    \<or> (\<exists>g w1 sess w2 ns wa rb wb work closing.
          tf_Graph fw w = (Inr g, w1) \<and> tf_Session fw g w1 = (Inr sess, w2)
          \<and> session_enter fw sess w2 = (ns, wa)
          \<and> with_body fw self model_fn actions ns wa = (rb, wb, work)
          \<and> (\<forall>x\<in>set work. \<not> is_session_event (fst x))
          \<and> t = [(Graph_call, Object g), (Session_call g, Object sess), (Enter sess, Object ns)]
                  @ work @ closing
          \<and> ((\<exists>e. rb = Inl e \<and> w' = session_exit fw sess (Some e) wb
                   \<and> closing = [(Exit sess (Some e), Nothing)] \<and> r = Inl e)
             \<or> (\<exists>reward e. rb = Inr reward
                   \<and> session_close fw ns (session_exit fw sess None wb) = (Inl e, w')
                   \<and> closing = [(Exit sess None, Nothing), (Close ns, Raised e)] \<and> r = Inl e)
             \<or> (\<exists>reward. rb = Inr reward
                   \<and> session_close fw ns (session_exit fw sess None wb) = (Inr (), w')
                   \<and> closing = [(Exit sess None, Nothing), (Close ns, Nothing)]
                   \<and> r = Inr reward)))"
  using assms
proof (cases rule: get_rewardsE)
  case (graph_fails e)
  then show ?thesis by blast
next
  case (session_fails g w1 e)
  then show ?thesis by blast
next
  case (body_fails g w1 sess w2 ns wa e wb tb)
  have "\<forall>x\<in>set tb. \<not> is_session_event (fst x)"
    using with_body_no_session_event [OF body_fails(4)] by blast
  with body_fails show ?thesis by blast
next
  case (close_fails g w1 sess w2 ns wa reward e wb tb)
  have "\<forall>x\<in>set tb. \<not> is_session_event (fst x)"
    using with_body_no_session_event [OF close_fails(4)] by blast
  with close_fails show ?thesis by blast
next
  case (returns g w1 sess w2 ns wa reward wb tb)
  have "\<forall>x\<in>set tb. \<not> is_session_event (fst x)"
    using with_body_no_session_event [OF returns(4)] by blast
  with returns show ?thesis by blast
qed

theorem session_around_run_witness:
  "\<exists>g w1 sess w2 ns wa wb work.
     tf_Graph ok_framework (0, []) = (Inr g, w1) \<and> tf_Session ok_framework g w1 = (Inr sess, w2)
     \<and> session_enter ok_framework sess w2 = (ns, wa)
     \<and> with_body ok_framework static_manager ok_model_fn [1, 2] ns wa = (Inr (9 / 10), wb, work)
     \<and> session_close ok_framework ns (session_exit ok_framework sess None wb) = (Inr (), (5, []))"
proof -
  note th = session_around_run [OF static_run]
  from th show ?thesis
    by (elim disjE exE conjE) (simp, simp, simp, simp, blast)
qed

text \<open>
  C7 as stated fails: when the session constructor raises, the call has created no
  session, and none is entered or closed; the exception goes to the caller.
\<close>

theorem no_session_when_constructor_raises:
  "get_rewards broken_session static_manager ok_model_fn [1, 2] (0, []) =
     (Inl (Framework ''no session''), (1, []),
      [(Graph_call, Object 0), (Session_call 0, Raised (Framework ''no session''))])"
  by code_simp

end
